theory Spec2Isabelle
  imports Complex_Main "HOL-Library.Word" "HOL-Library.Multiset"
begin

unbundle bit_operations_syntax

section \<open>Data model\<close>

text \<open>
  A Node \<open>Buffer\<close> is a list of bytes, an \<open>Int16Array\<close> a list of 16-bit words (read
  as two's complement by \<open>sint\<close>), an \<open>Int32Array\<close> a list of 32-bit words. Offsets and
  lengths are natural numbers. JavaScript numbers that hold seconds or ratios are modelled
  as exact rationals: the model has neither NaN nor infinities, and a division whose
  JavaScript result is NaN or an infinity is written out as a case of its own.
\<close>

type_synonym byte = "8 word"
type_synonym int16 = "16 word"
type_synonym int32 = "32 word"

text \<open>
  The failures of the code. The first three are the \<open>Error\<close>s the source throws itself:
  \<open>InvalidContainer\<close> for "Invalid WAV file (too small)", "Unsupported WAV header" and
  "WAV data chunk not found", \<open>UnsupportedFormat\<close> for "Only 16-bit PCM WAV is
  supported", \<open>EmptyInput\<close> for "No synthesized segments were provided.". \<open>RangeError\<close> is
  what the runtime throws for a \<open>Buffer\<close> read or write out of range, a typed-array view
  at an odd byte offset and an infinite typed-array length. \<open>FileNotFound\<close> is
  \<open>fs.readFile\<close> on a path that holds no file.
\<close>

datatype error = InvalidContainer | UnsupportedFormat | EmptyInput | RangeError | FileNotFound

record WavReadResult =
  sampleRate :: nat
  channels :: nat
  bitsPerSample :: nat
  samples :: "int16 list"

section \<open>WAV codec (src/audio/wav.ts)\<close>

subsection \<open>Buffer primitives\<close>

text \<open>\<open>buf.toString("ascii", s, e)\<close>: decoding as ASCII clears the highest bit of each byte.\<close>

definition asciiSlice :: "byte list \<Rightarrow> nat \<Rightarrow> nat \<Rightarrow> byte list" where
  "asciiSlice d s e = map (\<lambda>b. b AND 0x7F) (take (e - s) (drop s d))"

text \<open>The four-character tags, as the bytes of their ASCII characters.\<close>

definition tag :: "string \<Rightarrow> byte list" where
  "tag s = map of_char s"

text \<open>\<open>readUInt16LE\<close> and \<open>readUInt32LE\<close> throw when the bytes are not all inside the buffer.\<close>

definition readUInt16LE :: "byte list \<Rightarrow> nat \<Rightarrow> error + nat" where
  "readUInt16LE d off =
     (if off + 2 \<le> length d then Inr (unat (d ! off) + 256 * unat (d ! (off + 1)))
      else Inl RangeError)"

definition readUInt32LE :: "byte list \<Rightarrow> nat \<Rightarrow> error + nat" where
  "readUInt32LE d off =
     (if off + 4 \<le> length d
      then Inr (unat (d ! off) + 256 * unat (d ! (off + 1)) + 65536 * unat (d ! (off + 2))
                + 16777216 * unat (d ! (off + 3)))
      else Inl RangeError)"

text \<open>\<open>writeUInt16LE\<close> and \<open>writeUInt32LE\<close> throw when the value does not fit.\<close>

definition writeUInt16LE :: "int \<Rightarrow> error + byte list" where
  "writeUInt16LE v =
     (if 0 \<le> v \<and> v \<le> 65535 then Inr [word_of_int v, word_of_int (v div 256)]
      else Inl RangeError)"

definition writeUInt32LE :: "int \<Rightarrow> error + byte list" where
  "writeUInt32LE v =
     (if 0 \<le> v \<and> v \<le> 4294967295
      then Inr [word_of_int v, word_of_int (v div 256), word_of_int (v div 65536),
                word_of_int (v div 16777216)]
      else Inl RangeError)"

text \<open>\<open>writeInt16LE\<close> of an \<open>Int16Array\<close> element: the value is in range by its type.\<close>

definition writeInt16LE :: "int16 \<Rightarrow> byte list" where
  "writeInt16LE v = [ucast v, ucast (drop_bit 8 v)]"

text \<open>
  \<open>new Int16Array(pcm.buffer, pcm.byteOffset, pcm.length / 2)\<close>: a view of the bytes as
  16-bit elements in the byte order of the machine, taken to be little-endian, with
  \<open>pcm.length / 2\<close> truncated to an integer. The constructor throws a \<open>RangeError\<close>
  when the start offset is not a multiple of 2. The buffer that \<open>fs.readFile\<close> returns
  starts at an even \<open>byteOffset\<close> (it is allocated on its own or from the pool, which
  is aligned to 8 bytes; were it odd, no canonical file, with its data at offset 44,
  could be read), so \<open>pcm.byteOffset\<close> is even exactly when the offset of \<open>pcm\<close> in
  the file is.
\<close>

fun int16Elements :: "byte list \<Rightarrow> int16 list" where
  "int16Elements (lo # hi # rest) = word_of_nat (unat lo + 256 * unat hi) # int16Elements rest"
| "int16Elements _ = []"

definition int16View :: "nat \<Rightarrow> byte list \<Rightarrow> error + int16 list" where
  "int16View byteOffset pcm = (if even byteOffset then Inr (int16Elements pcm) else Inl RangeError)"

subsection \<open>pcm16ToWavBuffer, writeWavPcm16Mono\<close>

definition bind :: "error + 'a \<Rightarrow> ('a \<Rightarrow> error + 'b) \<Rightarrow> error + 'b" where
  "bind m f = (case m of Inl e \<Rightarrow> Inl e | Inr x \<Rightarrow> f x)"

definition pcm16ToWavBuffer :: "byte list \<Rightarrow> int \<Rightarrow> int \<Rightarrow> error + byte list" where
  "pcm16ToWavBuffer pcmData sampleRate' channels' =
     (let bitsPerSample' = 16;
          byteRate = sampleRate' * channels' * (bitsPerSample' div 8);
          blockAlign = channels' * (bitsPerSample' div 8);
          dataSize = int (length pcmData)
      in bind (writeUInt32LE (36 + dataSize)) (\<lambda>riffSize.
         bind (writeUInt32LE 16) (\<lambda>fmtSize.
         bind (writeUInt16LE 1) (\<lambda>formatTag.
         bind (writeUInt16LE channels') (\<lambda>ch.
         bind (writeUInt32LE sampleRate') (\<lambda>sr.
         bind (writeUInt32LE byteRate) (\<lambda>br.
         bind (writeUInt16LE blockAlign) (\<lambda>ba.
         bind (writeUInt16LE bitsPerSample') (\<lambda>bps.
         bind (writeUInt32LE dataSize) (\<lambda>ds.
           Inr (tag ''RIFF'' @ riffSize @ tag ''WAVE'' @ tag ''fmt '' @ fmtSize @ formatTag
                @ ch @ sr @ br @ ba @ bps @ tag ''data'' @ ds @ pcmData)))))))))))"

text \<open>
  \<open>writeWavPcm16Mono\<close> up to the bytes it hands to \<open>fs.writeFile\<close>: the samples as
  little-endian pairs behind the header, with one channel.
\<close>

definition wavBytesPcm16Mono :: "int \<Rightarrow> int16 list \<Rightarrow> error + byte list" where
  "wavBytesPcm16Mono sampleRate' samples' =
     pcm16ToWavBuffer (concat (map writeInt16LE samples')) sampleRate' 1"

subsection \<open>readWavPcm16Mono\<close>

record WavFormat =
  fmtChannels :: nat
  fmtSampleRate :: nat
  fmtBitsPerSample :: nat

text \<open>The three reads of the \<open>"fmt "\<close> branch; each throws when it leaves the buffer.\<close>

definition readFmt :: "byte list \<Rightarrow> nat \<Rightarrow> error + WavFormat" where
  "readFmt d chunkDataOffset =
     bind (readUInt16LE d (chunkDataOffset + 2)) (\<lambda>ch.
     bind (readUInt32LE d (chunkDataOffset + 4)) (\<lambda>sr.
     bind (readUInt16LE d (chunkDataOffset + 14)) (\<lambda>bps.
       Inr \<lparr>fmtChannels = ch, fmtSampleRate = sr, fmtBitsPerSample = bps\<rparr>)))"

text \<open>
  The chunk loop. The result is the format in force when the loop ends, with
  \<open>Some (pcmOffset, pcmSize)\<close> when a \<open>"data"\<close> chunk ended it and \<open>None\<close>
  (\<open>pcmOffset = -1\<close>) when the loop ran off the end.
\<close>

function scanChunks :: "byte list \<Rightarrow> nat \<Rightarrow> WavFormat \<Rightarrow> error + (WavFormat \<times> (nat \<times> nat) option)" where
  "scanChunks d offset fmt =
     (if offset + 8 \<le> length d then
        (case readUInt32LE d (offset + 4) of
           Inl e \<Rightarrow> Inl e
         | Inr chunkSize \<Rightarrow>
            (case (if asciiSlice d offset (offset + 4) = tag ''fmt ''
                   then readFmt d (offset + 8) else Inr fmt) of
               Inl e \<Rightarrow> Inl e
             | Inr fmt' \<Rightarrow>
                 if asciiSlice d offset (offset + 4) = tag ''data''
                 then Inr (fmt', Some (offset + 8, chunkSize))
                 else scanChunks d (offset + 8 + chunkSize) fmt'))
      else Inr (fmt, None))"
  by pat_completeness auto
termination
  by (relation "measure (\<lambda>(d, offset, fmt). length d - offset)") auto

declare scanChunks.simps [simp del]

text \<open>
  The downmix loop. \<open>totalFrames = pcm.length / 2 / channels\<close> is a JavaScript number:
  infinite when \<open>channels = 0\<close> and \<open>pcm\<close> is not empty (then \<open>new Int16Array(totalFrames)\<close>
  throws), NaN when both are 0 (then \<open>mono\<close> is empty and the loop does not run).
  Otherwise \<open>mono\<close> has \<open>totalFrames\<close> truncated elements; when \<open>totalFrames\<close> is not an
  integer the loop runs once more, and the write of that iteration is outside \<open>mono\<close>
  and ignored. An element read beyond \<open>source\<close> is \<open>undefined\<close>, the \<open>sum\<close> is then NaN and
  NaN is stored as 0.
\<close>

definition frameSum :: "int16 list \<Rightarrow> nat \<Rightarrow> nat \<Rightarrow> int option" where
  "frameSum source channels' frame =
     fold (\<lambda>channel s.
             if frame * channels' + channel < length source
             then map_option (\<lambda>v. v + sint (source ! (frame * channels' + channel))) s
             else None)
          [0..<channels'] (Some 0)"

definition clampInt16 :: "int \<Rightarrow> int" where
  "clampInt16 v = max (-32768) (min 32767 v)"

text \<open>\<open>Math.round\<close> rounds to the nearest integer, a tie towards plus infinity.\<close>

definition mathRound :: "rat \<Rightarrow> int" where
  "mathRound x = \<lfloor>x + 1 / 2\<rfloor>"

definition monoSample :: "int16 list \<Rightarrow> nat \<Rightarrow> nat \<Rightarrow> int16" where
  "monoSample source channels' frame =
     (case frameSum source channels' frame of
        None \<Rightarrow> 0
      | Some s \<Rightarrow> word_of_int (clampInt16 (mathRound (of_int s / of_nat channels'))))"

definition downmix :: "nat \<Rightarrow> nat \<Rightarrow> byte list \<Rightarrow> error + int16 list" where
  "downmix byteOffset channels' pcm =
     bind (int16View byteOffset pcm) (\<lambda>source.
       if channels' = 0 then (if pcm = [] then Inr [] else Inl RangeError)
       else Inr (map (monoSample source channels') [0..<length pcm div 2 div channels']))"

text \<open>The values of \<open>channels\<close>, \<open>sampleRate\<close> and \<open>bitsPerSample\<close> before the loop.\<close>

definition defaultFormat :: WavFormat where
  "defaultFormat = \<lparr>fmtChannels = 1, fmtSampleRate = 24000, fmtBitsPerSample = 16\<rparr>"

text \<open>\<open>readWavPcm16Mono\<close> from the bytes \<open>data\<close> that \<open>fs.readFile\<close> returned.\<close>

definition parseWavPcm16Mono :: "byte list \<Rightarrow> error + WavReadResult" where
  "parseWavPcm16Mono d =
     (if length d < 44 then Inl InvalidContainer
      else if asciiSlice d 0 4 \<noteq> tag ''RIFF'' \<or> asciiSlice d 8 12 \<noteq> tag ''WAVE''
      then Inl InvalidContainer
      else bind (scanChunks d 12 defaultFormat)
        (\<lambda>(fmt, found).
           case found of
             None \<Rightarrow> Inl InvalidContainer
           | Some (pcmOffset, pcmSize) \<Rightarrow>
               if fmtBitsPerSample fmt \<noteq> 16 then Inl UnsupportedFormat
               else
                 let pcm = take pcmSize (drop pcmOffset d) in
                 if fmtChannels fmt = 1
                 then bind (int16View pcmOffset pcm) (\<lambda>s.
                        Inr \<lparr>sampleRate = fmtSampleRate fmt, channels = fmtChannels fmt,
                             bitsPerSample = fmtBitsPerSample fmt, samples = s\<rparr>)
                 else bind (downmix pcmOffset (fmtChannels fmt) pcm) (\<lambda>mono.
                        Inr \<lparr>sampleRate = fmtSampleRate fmt, channels = 1,
                             bitsPerSample = fmtBitsPerSample fmt, samples = mono\<rparr>)))"

section \<open>Timeline (src/audio/timeline.ts)\<close>

subsection \<open>resampleLinear\<close>

text \<open>
  An element of a typed array read outside it is \<open>undefined\<close>; arithmetic on it gives
  NaN, \<open>Math.round\<close> of NaN is NaN, and NaN is stored in a typed array as 0. \<open>elemAt\<close>
  is \<open>None\<close> for such a read.
\<close>

definition elemAt :: "int16 list \<Rightarrow> int \<Rightarrow> int option" where
  "elemAt samples' k =
     (if 0 \<le> k \<and> k < int (length samples') then Some (sint (samples' ! nat k)) else None)"

text \<open>The right-hand side of \<open>output[index] = ...\<close>, before the store into the \<open>Int16Array\<close>.\<close>

definition interpolate :: "int16 list \<Rightarrow> rat \<Rightarrow> nat \<Rightarrow> int option" where
  "interpolate samples' ratio i =
     (let sourcePosition = of_nat i / ratio;
          left = \<lfloor>sourcePosition\<rfloor>;
          right = min (left + 1) (int (length samples') - 1);
          alpha = sourcePosition - of_int left
      in case (elemAt samples' left, elemAt samples' right) of
           (Some l, Some r) \<Rightarrow> Some (mathRound (of_int l * (1 - alpha) + of_int r * alpha))
         | _ \<Rightarrow> None)"

text \<open>The store: the value modulo \<open>2 ^ 16\<close>, NaN as 0.\<close>

definition storeInt16 :: "int option \<Rightarrow> int16" where
  "storeInt16 v = (case v of None \<Rightarrow> 0 | Some x \<Rightarrow> word_of_int x)"

text \<open>
  The source rate is the unsigned 32-bit field of the WAV header, the target rate an
  integer. With a source rate of 0 the ratio is an infinity: the target length is then
  NaN for an empty input (the output is empty), plus infinity for a positive target rate
  (the allocation throws), and 1 for a negative one (the source position is 0 and
  \<open>alpha\<close> is 0). With a target rate of 0 the ratio is 0, the target length is 1 and
  the source position \<open>0 / 0\<close> is NaN.
\<close>

definition resampleLinear :: "int16 list \<Rightarrow> nat \<Rightarrow> int \<Rightarrow> error + int16 list" where
  "resampleLinear samples' sourceRate targetRate =
     (if int sourceRate = targetRate then Inr samples'
      else if sourceRate = 0 then
        (if samples' = [] then Inr []
         else if 0 < targetRate then Inl RangeError
         else Inr [samples' ! 0])
      else if targetRate = 0 then Inr [0]
      else
        let ratio = of_int targetRate / of_nat sourceRate;
            targetLength = nat (max 1 (mathRound (of_nat (length samples') * ratio)))
        in Inr (map (\<lambda>i. storeInt16 (interpolate samples' ratio i)) [0..<targetLength]))"

subsection \<open>composeDubbedTimeline\<close>

text \<open>
  The fields of \<open>SynthesizedSegment\<close> that \<open>composeDubbedTimeline\<close> reads (\<open>index\<close>,
  \<open>speaker\<close>, \<open>translatedText\<close> and \<open>sampleRate\<close> are not read). Seconds are exact
  rationals, the target sample rate is an integer.
\<close>

record SynthesizedSegment =
  startSec :: rat
  endSec :: rat
  wavPath :: string
  durationSec :: rat

record ComposeParams =
  segments :: "SynthesizedSegment list"
  outputWavPath :: string
  targetSampleRate :: "int option"
  mediaDurationSec :: "rat option"

type_synonym files = "string \<Rightarrow> byte list option"

text \<open>\<open>readWavPcm16Mono(path)\<close>: \<open>fs.readFile\<close>, then the parser.\<close>

definition readWavPcm16Mono :: "files \<Rightarrow> string \<Rightarrow> error + WavReadResult" where
  "readWavPcm16Mono fs path =
     (case fs path of None \<Rightarrow> Inl FileNotFound | Some d \<Rightarrow> parseWavPcm16Mono d)"

text \<open>The first two statements of the loop body: the segment's audio at the target rate.\<close>

definition segmentSource :: "files \<Rightarrow> int \<Rightarrow> SynthesizedSegment \<Rightarrow> error + int16 list" where
  "segmentSource fs rate segment =
     bind (readWavPcm16Mono fs (wavPath segment)) (\<lambda>wav.
       resampleLinear (samples wav) (sampleRate wav) rate)"

definition segmentStartIndex :: "int \<Rightarrow> SynthesizedSegment \<Rightarrow> nat" where
  "segmentStartIndex rate segment = nat (max 0 (mathRound (startSec segment * of_int rate)))"

definition targetWindowSamples :: "int \<Rightarrow> SynthesizedSegment \<Rightarrow> nat" where
  "targetWindowSamples rate segment =
     nat (max 1 (mathRound ((endSec segment - startSec segment) * of_int rate)))"

definition writableCount :: "int \<Rightarrow> nat \<Rightarrow> SynthesizedSegment \<Rightarrow> int16 list \<Rightarrow> nat" where
  "writableCount rate totalSamples segment source =
     (let maxWritable = nat (max 0 (int totalSamples - int (segmentStartIndex rate segment)))
      in min (length source) (min (targetWindowSamples rate segment) maxWritable))"

text \<open>
  The inner loop, \<open>accumulator[start + sampleIndex] += source[sampleIndex]\<close> on an
  \<open>Int32Array\<close>: the sum is stored modulo \<open>2 ^ 32\<close>. A write outside the accumulator is
  ignored, as \<open>list_update\<close> does; a read outside \<open>source\<close> makes the sum NaN, stored
  as 0.
\<close>

definition addSamples :: "nat \<Rightarrow> int16 list \<Rightarrow> nat \<Rightarrow> int32 list \<Rightarrow> int32 list" where
  "addSamples start source writable accumulator =
     fold (\<lambda>sampleIndex acc.
             acc[start + sampleIndex :=
                   (if sampleIndex < length source
                    then acc ! (start + sampleIndex) + scast (source ! sampleIndex)
                    else 0)])
          [0..<writable] accumulator"

definition addSegment :: "int \<Rightarrow> nat \<Rightarrow> SynthesizedSegment \<Rightarrow> int16 list \<Rightarrow> int32 list \<Rightarrow> int32 list" where
  "addSegment rate totalSamples segment source accumulator =
     addSamples (segmentStartIndex rate segment) source
       (writableCount rate totalSamples segment source) accumulator"

text \<open>The loop over the segments; a failed read or resampling ends it.\<close>

fun accumulateSegments ::
  "files \<Rightarrow> int \<Rightarrow> nat \<Rightarrow> SynthesizedSegment list \<Rightarrow> int32 list \<Rightarrow> error + int32 list" where
  "accumulateSegments fs rate totalSamples [] accumulator = Inr accumulator"
| "accumulateSegments fs rate totalSamples (segment # rest) accumulator =
     (case segmentSource fs rate segment of
        Inl e \<Rightarrow> Inl e
      | Inr source \<Rightarrow>
          accumulateSegments fs rate totalSamples rest
            (addSegment rate totalSamples segment source accumulator))"

text \<open>
  \<open>Math.max\<close> over the end times and the start times plus durations. It is evaluated
  only behind the check that the list is not empty.
\<close>

definition inferredDuration :: "SynthesizedSegment list \<Rightarrow> rat" where
  "inferredDuration segs =
     Max (set (map endSec segs @ map (\<lambda>segment. startSec segment + durationSec segment) segs))"

definition targetRate :: "ComposeParams \<Rightarrow> int" where
  "targetRate params = (case targetSampleRate params of None \<Rightarrow> 24000 | Some r \<Rightarrow> r)"

definition timelineSamples :: "ComposeParams \<Rightarrow> nat" where
  "timelineSamples params =
     (let duration = max (case mediaDurationSec params of None \<Rightarrow> 0 | Some m \<Rightarrow> m)
                         (inferredDuration (segments params))
      in nat (max 1 \<lceil>duration * of_int (targetRate params)\<rceil>))"

definition finalSample :: "int32 \<Rightarrow> int16" where
  "finalSample a = word_of_int (clampInt16 (sint a))"

text \<open>
  The function from its first line to \<open>finalSamples\<close>, without the two calls that touch
  the file system for writing (\<open>fs.mkdir\<close> and \<open>writeWavPcm16Mono\<close>). The limit of the
  runtime on the length of a typed array is not modelled: \<open>new Int32Array(totalSamples)\<close>
  is a list of \<open>totalSamples\<close> zeros.
\<close>

definition composeSamples :: "files \<Rightarrow> ComposeParams \<Rightarrow> error + int16 list" where
  "composeSamples fs params =
     (if segments params = [] then Inl EmptyInput
      else
        bind (accumulateSegments fs (targetRate params) (timelineSamples params) (segments params)
                (replicate (timelineSamples params) 0))
          (\<lambda>accumulator. Inr (map finalSample accumulator)))"

text \<open>
  The whole function on a world: the files by path, and the trace of what the call did
  besides reading (\<open>fs.mkdir\<close> of the directory of the output path, the allocation of
  the accumulator, the file it wrote). \<open>fs.mkdir\<close> and \<open>fs.writeFile\<close> themselves are
  taken to succeed.
\<close>

datatype event = MkdirParent string | AllocAccumulator nat | WriteFile string

record world =
  files :: files
  trace :: "event list"

definition composeDubbedTimeline :: "world \<Rightarrow> ComposeParams \<Rightarrow> (error + unit) \<times> world" where
  "composeDubbedTimeline w params =
     (if segments params = [] then (Inl EmptyInput, w)
      else
        let w1 = w\<lparr>trace := trace w @ [MkdirParent (outputWavPath params),
                                         AllocAccumulator (timelineSamples params)]\<rparr>
        in case bind (composeSamples (files w) params) (wavBytesPcm16Mono (targetRate params)) of
             Inl e \<Rightarrow> (Inl e, w1)
           | Inr wav \<Rightarrow>
               (Inr (), w1\<lparr>files := (files w1)(outputWavPath params \<mapsto> wav),
                           trace := trace w1 @ [WriteFile (outputWavPath params)]\<rparr>))"

section \<open>Definitions used in the statements and proofs\<close>

text \<open>The canonical 44-byte header of a mono file, spelled out byte by byte.\<close>

definition le32 :: "int \<Rightarrow> byte list" where
  "le32 v = [word_of_int v, word_of_int (v div 256), word_of_int (v div 65536),
             word_of_int (v div 16777216)]"

definition monoHeader :: "int \<Rightarrow> int \<Rightarrow> byte list" where
  "monoHeader rate dataSize =
     [0x52, 0x49, 0x46, 0x46] @ le32 (36 + dataSize) @ [0x57, 0x41, 0x56, 0x45]
     @ [0x66, 0x6D, 0x74, 0x20] @ [16, 0, 0, 0] @ [1, 0] @ [1, 0] @ le32 rate @ le32 (rate * 2)
     @ [2, 0] @ [16, 0] @ [0x64, 0x61, 0x74, 0x61] @ le32 dataSize"

text \<open>
  What one segment adds at output index \<open>i\<close>, whether a segment's audio loads, and the
  audio it loads (used only where it loads).
\<close>

definition contribution :: "int \<Rightarrow> nat \<Rightarrow> SynthesizedSegment \<Rightarrow> int16 list \<Rightarrow> nat \<Rightarrow> int32" where
  "contribution rate totalSamples segment source i =
     (if segmentStartIndex rate segment \<le> i
         \<and> i < segmentStartIndex rate segment + writableCount rate totalSamples segment source
      then scast (source ! (i - segmentStartIndex rate segment)) else 0)"

definition sourceOf :: "files \<Rightarrow> int \<Rightarrow> SynthesizedSegment \<Rightarrow> int16 list" where
  "sourceOf fs rate segment =
     (case segmentSource fs rate segment of Inl e \<Rightarrow> [] | Inr source \<Rightarrow> source)"

definition loads :: "files \<Rightarrow> int \<Rightarrow> SynthesizedSegment \<Rightarrow> bool" where
  "loads fs rate segment =
     (case segmentSource fs rate segment of Inl e \<Rightarrow> False | Inr source \<Rightarrow> True)"

text \<open>
  A small world for concrete runs: two four-sample mono files at 4 Hz, two segments
  that both start at 0 s and last 1 s, and a third segment that starts before 0 s.
\<close>

definition exampleFiles :: files where
  "exampleFiles path =
     (if path = ''a.wav''
      then Some (monoHeader 4 8 @ concat (map writeInt16LE [100, 20000, - 7, 30000]))
      else if path = ''b.wav''
      then Some (monoHeader 4 8 @ concat (map writeInt16LE [5, 20000, 0, - 30000]))
      else None)"

definition segmentA :: SynthesizedSegment where
  "segmentA = \<lparr>startSec = 0, endSec = 1, wavPath = ''a.wav'', durationSec = 1\<rparr>"

definition segmentB :: SynthesizedSegment where
  "segmentB = \<lparr>startSec = 0, endSec = 1, wavPath = ''b.wav'', durationSec = 1\<rparr>"


definition exampleParams :: "SynthesizedSegment list \<Rightarrow> ComposeParams" where
  "exampleParams segs =
     \<lparr>segments = segs, outputWavPath = ''out.wav'', targetSampleRate = Some 4,
      mediaDurationSec = None\<rparr>"

definition squareWave :: "int16 list" where
  "squareWave = map (\<lambda>i. if even i then 1000 else - 1000) [0..<24000]"

definition toneFiles :: files where
  "toneFiles path =
     (if path = ''tone.wav''
      then Some (monoHeader 24000 48000 @ concat (map writeInt16LE squareWave))
      else None)"

text \<open>
  The downmix in the words of the specification: the samples are cut into frames of one
  sample per channel (an incomplete last frame is dropped), and each frame becomes the
  average of its values, rounded to the nearest integer and clamped to the 16-bit range.
\<close>

definition framesOf :: "nat \<Rightarrow> int16 list \<Rightarrow> int16 list list" where
  "framesOf c xs = map (\<lambda>f. take c (drop (f * c) xs)) [0..<length xs div c]"

definition averageFrame :: "int16 list \<Rightarrow> rat" where
  "averageFrame fr = of_int (sum_list (map sint fr)) / of_nat (length fr)"

definition downmixSpec :: "nat \<Rightarrow> int16 list \<Rightarrow> int16 list" where
  "downmixSpec c xs =
     map (\<lambda>fr. word_of_int (clampInt16 (round (averageFrame fr)))) (framesOf c xs)"

text \<open>
  Byte sequences for concrete runs of the parser: a two-channel file with the one frame
  (100, -100); a file whose \<open>"fmt "\<close> chunk declares 8 bits and that has no \<open>"data"\<close>
  chunk; the same with an empty \<open>"data"\<close> chunk; a 44-byte file whose last chunk header
  is \<open>"fmt "\<close>; and a file without \<open>"fmt "\<close> chunk whose \<open>"data"\<close> chunk follows a
  chunk of 1 byte.
\<close>

definition stereoExample :: "byte list" where
  "stereoExample =
     [0x52, 0x49, 0x46, 0x46, 40, 0, 0, 0, 0x57, 0x41, 0x56, 0x45,
      0x66, 0x6D, 0x74, 0x20, 16, 0, 0, 0, 1, 0, 2, 0, 0xC0, 0x5D, 0, 0, 0x00, 0x77, 0x01, 0x00,
      4, 0, 16, 0,
      0x64, 0x61, 0x74, 0x61, 4, 0, 0, 0, 0x64, 0x00, 0x9C, 0xFF]"

definition eightBitNoDataExample :: "byte list" where
  "eightBitNoDataExample =
     [0x52, 0x49, 0x46, 0x46, 36, 0, 0, 0, 0x57, 0x41, 0x56, 0x45,
      0x66, 0x6D, 0x74, 0x20, 16, 0, 0, 0, 1, 0, 1, 0, 0xC0, 0x5D, 0, 0, 0xC0, 0x5D, 0, 0,
      1, 0, 8, 0,
      0x4A, 0x55, 0x4E, 0x4B, 0, 0, 0, 0]"

definition eightBitExample :: "byte list" where
  "eightBitExample =
     [0x52, 0x49, 0x46, 0x46, 36, 0, 0, 0, 0x57, 0x41, 0x56, 0x45,
      0x66, 0x6D, 0x74, 0x20, 16, 0, 0, 0, 1, 0, 1, 0, 0xC0, 0x5D, 0, 0, 0xC0, 0x5D, 0, 0,
      1, 0, 8, 0,
      0x64, 0x61, 0x74, 0x61, 0, 0, 0, 0]"

definition fmtAtEndExample :: "byte list" where
  "fmtAtEndExample =
     [0x52, 0x49, 0x46, 0x46, 36, 0, 0, 0, 0x57, 0x41, 0x56, 0x45,
      0x4A, 0x55, 0x4E, 0x4B, 16, 0, 0, 0, 0, 0, 0, 0, 0, 0, 0, 0, 0, 0, 0, 0, 0, 0, 0, 0,
      0x66, 0x6D, 0x74, 0x20, 0, 0, 0, 0]"

definition oddDataExample :: "byte list" where
  "oddDataExample =
     [0x52, 0x49, 0x46, 0x46, 37, 0, 0, 0, 0x57, 0x41, 0x56, 0x45,
      0x4A, 0x55, 0x4E, 0x4B, 1, 0, 0, 0, 0,
      0x64, 0x61, 0x74, 0x61, 16, 0, 0, 0,
      1, 0, 2, 0, 3, 0, 4, 0, 5, 0, 6, 0, 7, 0, 8, 0]"

section \<open>The codec: bytes and numbers\<close>

lemma tag_RIFF: "tag ''RIFF'' = [0x52, 0x49, 0x46, 0x46]"
  by (simp add: tag_def)

lemma tag_WAVE: "tag ''WAVE'' = [0x57, 0x41, 0x56, 0x45]"
  by (simp add: tag_def)

lemma tag_fmt: "tag ''fmt '' = [0x66, 0x6D, 0x74, 0x20]"
  by (simp add: tag_def)

lemma tag_data: "tag ''data'' = [0x64, 0x61, 0x74, 0x61]"
  by (simp add: tag_def)

lemma unat_low_byte: "unat (ucast v :: byte) = unat v mod 256" for v :: int16
  by (simp add: unsigned_ucast_eq take_bit_eq_mod)

lemma unat_high_byte: "unat (ucast (drop_bit 8 v) :: byte) = unat v div 256" for v :: int16
proof -
  have "unat v < 65536" using unsigned_less [of v, where ?'a = nat] by simp
  then have lt: "unat v div 256 < 256" by simp
  have "unat (drop_bit 8 v) = unat v div 256"
    by (simp only: unat_drop_bit_eq) (simp add: drop_bit_eq_div)
  then have "unat (ucast (drop_bit 8 v) :: byte) = (unat v div 256) mod 256"
    by (simp only: unsigned_ucast_eq take_bit_eq_mod) simp
  with lt show ?thesis by simp
qed

lemma int16_of_bytes: "int16Elements (writeInt16LE v @ rest) = v # int16Elements rest"
proof -
  have "unat (ucast v :: byte) + 256 * unat (ucast (drop_bit 8 v) :: byte) = unat v"
    by (simp only: unat_high_byte) (simp add: unat_low_byte)
  then have "(word_of_nat (unat (ucast v :: byte) + 256 * unat (ucast (drop_bit 8 v) :: byte)) :: int16) = v"
    by (simp only: of_nat_unat ucast_id)
  then show ?thesis
    by (simp only: writeInt16LE_def int16Elements.simps append_Cons append_Nil)
qed

lemma int16Elements_writeInt16LE: "int16Elements (concat (map writeInt16LE xs)) = xs"
  by (induction xs) (simp_all only: list.map concat.simps int16_of_bytes int16Elements.simps)

lemma length_pcm: "length (concat (map writeInt16LE xs)) = 2 * length xs"
  by (induction xs) (simp_all add: writeInt16LE_def)

lemma byte_of_nat: "unat (word_of_int (int k) :: byte) = k mod 256"
  by (simp add: unat_of_nat)

lemma u16_digits:
  assumes "n < 65536"
  shows "n mod 256 + 256 * (n div 256 mod 256) = (n::nat)"
proof -
  have "n div 256 < 256" using assms by simp
  then show ?thesis by simp
qed

lemma u32_digits:
  assumes "n < 4294967296"
  shows "n mod 256 + 256 * (n div 256 mod 256) + 65536 * (n div 65536 mod 256)
           + 16777216 * (n div 16777216 mod 256) = (n::nat)"
proof -
  have a: "n div 16777216 < 256" using assms by simp
  have b': "n div 65536 div 256 = n div 16777216"
    by (simp add: div_mult2_eq[symmetric])
  have c': "n div 256 div 256 = n div 65536"
    by (simp add: div_mult2_eq[symmetric])
  have b: "n div 65536 = 256 * (n div 16777216) + n div 65536 mod 256"
    unfolding b'[symmetric] by simp
  have c: "n div 256 = 256 * (n div 65536) + n div 256 mod 256"
    unfolding c'[symmetric] by simp
  have d: "n = 256 * (n div 256) + n mod 256" by simp
  have a': "n div 16777216 mod 256 = n div 16777216" using a by simp
  show ?thesis unfolding a' using b c d by linarith
qed

lemma readUInt32LE_digits:
  assumes "0 \<le> v" "v \<le> 4294967295"
  shows "unat (word_of_int v :: byte) + 256 * unat (word_of_int (v div 256) :: byte)
       + 65536 * unat (word_of_int (v div 65536) :: byte)
       + 16777216 * unat (word_of_int (v div 16777216) :: byte) = nat v"
proof -
  obtain n where n: "v = int n" using assms(1) by (metis nat_0_le)
  have lt: "n < 4294967296" using assms(2) n by simp
  have d: "\<And>c. int n div numeral c = int (n div numeral c)" by (simp add: zdiv_int)
  show ?thesis
    unfolding n d byte_of_nat nat_int using u32_digits [OF lt] .
qed

subsection \<open>The serialiser writes the canonical header, and the parser reads it back\<close>

lemma pcm16ToWavBuffer_mono:
  assumes "0 \<le> rate" "rate * 2 \<le> 4294967295" "36 + int (length pcm) \<le> 4294967295"
  shows "pcm16ToWavBuffer pcm rate 1 = Inr (monoHeader rate (int (length pcm)) @ pcm)"
  using assms
  by (simp add: pcm16ToWavBuffer_def Let_def bind_def writeUInt32LE_def writeUInt16LE_def
        monoHeader_def le32_def tag_RIFF tag_WAVE tag_fmt tag_data)

lemma pcm16ToWavBuffer_mono_fail:
  assumes "\<not> (0 \<le> rate \<and> rate * 2 \<le> 4294967295 \<and> 36 + int (length pcm) \<le> 4294967295)"
  shows "pcm16ToWavBuffer pcm rate 1 = Inl RangeError"
  using assms
  by (auto simp add: pcm16ToWavBuffer_def Let_def bind_def writeUInt32LE_def writeUInt16LE_def)

lemma parse_monoHeader:
  assumes "0 \<le> rate" "rate \<le> 4294967295" "0 \<le> n" "n \<le> 4294967295" "n = int (length pcm)"
  shows "parseWavPcm16Mono (monoHeader rate n @ pcm) =
           Inr \<lparr>sampleRate = nat rate, channels = 1, bitsPerSample = 16,
                samples = int16Elements pcm\<rparr>"
proof -
  let ?d = "monoHeader rate n @ pcm"
  let ?f = "\<lparr>fmtChannels = 1, fmtSampleRate = nat rate, fmtBitsPerSample = 16\<rparr>"
  have len: "length (monoHeader rate n) = 44"
    by (simp add: monoHeader_def le32_def)
  have riff: "asciiSlice ?d 0 4 = tag ''RIFF''"
    by (simp add: asciiSlice_def monoHeader_def tag_RIFF)
  have wave: "asciiSlice ?d 8 12 = tag ''WAVE''"
    by (simp add: asciiSlice_def monoHeader_def tag_WAVE le32_def)
  have id12: "asciiSlice ?d 12 16 = tag ''fmt ''"
    by (simp add: asciiSlice_def monoHeader_def tag_fmt le32_def)
  have id36: "asciiSlice ?d 36 40 = [0x64, 0x61, 0x74, 0x61]"
    by (simp add: asciiSlice_def monoHeader_def le32_def)
  have sz12: "readUInt32LE ?d 16 = Inr 16"
    by (simp add: readUInt32LE_def monoHeader_def le32_def)
  have sz36: "readUInt32LE ?d 40 = Inr (length pcm)"
    using readUInt32LE_digits [OF assms(3,4)] assms(5)
    by (simp add: readUInt32LE_def monoHeader_def le32_def)
  have fmt: "readFmt ?d 20 = Inr ?f"
    using readUInt32LE_digits [OF assms(1,2)]
    by (simp add: readFmt_def bind_def readUInt32LE_def readUInt16LE_def monoHeader_def le32_def)
  have s36: "scanChunks ?d 36 ?f = Inr (?f, Some (44, length pcm))"
    by (subst scanChunks.simps) (simp add: len sz36 id36 tag_data tag_fmt)
  have s12: "scanChunks ?d 12 defaultFormat = Inr (?f, Some (44, length pcm))"
    by (subst scanChunks.simps)
       (simp add: len sz12 id12 fmt tag_data tag_fmt s36 [unfolded One_nat_def])
  have dr: "drop 44 ?d = pcm"
    by (simp add: monoHeader_def le32_def)
  show ?thesis
    unfolding parseWavPcm16Mono_def
    by (simp add: len riff wave s12 bind_def dr int16View_def)
qed

lemma parse_wavBytes:
  assumes "wavBytesPcm16Mono rate xs = Inr W"
  shows "parseWavPcm16Mono W =
           Inr \<lparr>sampleRate = nat rate, channels = 1, bitsPerSample = 16, samples = xs\<rparr>"
proof -
  let ?pcm = "concat (map writeInt16LE xs)"
  have ok: "0 \<le> rate \<and> rate * 2 \<le> 4294967295 \<and> 36 + int (length ?pcm) \<le> 4294967295"
    using assms pcm16ToWavBuffer_mono_fail [of rate ?pcm]
    by (auto simp: wavBytesPcm16Mono_def)
  then have W: "W = monoHeader rate (int (length ?pcm)) @ ?pcm"
    using assms pcm16ToWavBuffer_mono [of rate ?pcm] by (simp add: wavBytesPcm16Mono_def)
  have "parseWavPcm16Mono W = Inr \<lparr>sampleRate = nat rate, channels = 1, bitsPerSample = 16,
          samples = int16Elements ?pcm\<rparr>"
    unfolding W using ok by (intro parse_monoHeader) auto
  then show ?thesis by (simp only: int16Elements_writeInt16LE)
qed

lemma wavBytes_ok:
  assumes "0 \<le> rate" "rate < 2147483648" "36 + 2 * int (length xs) < 4294967296"
  shows "wavBytesPcm16Mono rate xs =
           Inr (monoHeader rate (2 * int (length xs)) @ concat (map writeInt16LE xs))"
  unfolding wavBytesPcm16Mono_def using assms pcm16ToWavBuffer_mono [of rate "concat (map writeInt16LE xs)"]
  by (simp add: length_pcm)

subsection \<open>One step of the chunk loop, and the parser by the outcome of the loop\<close>

lemma scan_end: "\<not> offset + 8 \<le> length d \<Longrightarrow> scanChunks d offset fmt = Inr (fmt, None)"
  by (subst scanChunks.simps) simp

lemma scan_data:
  assumes "offset + 8 \<le> length d" "asciiSlice d offset (offset + 4) = tag ''data''"
    "readUInt32LE d (offset + 4) = Inr sz"
  shows "scanChunks d offset fmt = Inr (fmt, Some (offset + 8, sz))"
  using assms by (subst scanChunks.simps) (simp add: tag_data tag_fmt)

lemma scan_fmt:
  assumes "offset + 8 \<le> length d" "asciiSlice d offset (offset + 4) = tag ''fmt ''"
    "readUInt32LE d (offset + 4) = Inr sz" "readFmt d (offset + 8) = Inr fmt'"
  shows "scanChunks d offset fmt = scanChunks d (offset + 8 + sz) fmt'"
  using assms by (subst scanChunks.simps) (simp add: tag_data tag_fmt)

lemma scan_fmt_fail:
  assumes "offset + 8 \<le> length d" "asciiSlice d offset (offset + 4) = tag ''fmt ''"
    "readFmt d (offset + 8) = Inl e"
  shows "scanChunks d offset fmt = Inl e"
proof -
  obtain sz where "readUInt32LE d (offset + 4) = Inr sz"
    using assms(1) by (simp add: readUInt32LE_def)
  then show ?thesis
    using assms by (subst scanChunks.simps) simp
qed

lemma scan_other:
  assumes "offset + 8 \<le> length d" "asciiSlice d offset (offset + 4) \<noteq> tag ''fmt ''"
    "asciiSlice d offset (offset + 4) \<noteq> tag ''data''" "readUInt32LE d (offset + 4) = Inr sz"
  shows "scanChunks d offset fmt = scanChunks d (offset + 8 + sz) fmt"
  using assms by (subst scanChunks.simps) simp

lemma parse_scan_error:
  assumes "44 \<le> length d" "asciiSlice d 0 4 = tag ''RIFF''" "asciiSlice d 8 12 = tag ''WAVE''"
    "scanChunks d 12 defaultFormat = Inl e"
  shows "parseWavPcm16Mono d = Inl e"
  using assms by (simp add: parseWavPcm16Mono_def bind_def)

lemma parse_no_data:
  assumes "44 \<le> length d" "asciiSlice d 0 4 = tag ''RIFF''" "asciiSlice d 8 12 = tag ''WAVE''"
    "scanChunks d 12 defaultFormat = Inr (fmt, None)"
  shows "parseWavPcm16Mono d = Inl InvalidContainer"
  using assms by (simp add: parseWavPcm16Mono_def bind_def)

lemma parse_bits:
  assumes "44 \<le> length d" "asciiSlice d 0 4 = tag ''RIFF''" "asciiSlice d 8 12 = tag ''WAVE''"
    "scanChunks d 12 defaultFormat = Inr (fmt, Some (off, sz))" "fmtBitsPerSample fmt \<noteq> 16"
  shows "parseWavPcm16Mono d = Inl UnsupportedFormat"
  using assms by (simp add: parseWavPcm16Mono_def bind_def)

lemma parse_mono:
  assumes "44 \<le> length d" "asciiSlice d 0 4 = tag ''RIFF''" "asciiSlice d 8 12 = tag ''WAVE''"
    "scanChunks d 12 defaultFormat = Inr (fmt, Some (off, sz))" "fmtBitsPerSample fmt = 16"
    "fmtChannels fmt = 1"
  shows "parseWavPcm16Mono d =
           bind (int16View off (take sz (drop off d))) (\<lambda>s.
             Inr \<lparr>sampleRate = fmtSampleRate fmt, channels = 1, bitsPerSample = 16, samples = s\<rparr>)"
  using assms by (simp add: parseWavPcm16Mono_def bind_def)

lemma parse_multi:
  assumes "44 \<le> length d" "asciiSlice d 0 4 = tag ''RIFF''" "asciiSlice d 8 12 = tag ''WAVE''"
    "scanChunks d 12 defaultFormat = Inr (fmt, Some (off, sz))" "fmtBitsPerSample fmt = 16"
    "fmtChannels fmt \<noteq> 1"
  shows "parseWavPcm16Mono d =
           bind (downmix off (fmtChannels fmt) (take sz (drop off d))) (\<lambda>mono.
             Inr \<lparr>sampleRate = fmtSampleRate fmt, channels = 1, bitsPerSample = 16,
                  samples = mono\<rparr>)"
  using assms by (simp add: parseWavPcm16Mono_def bind_def)

section \<open>C1: serialising, parsing and serialising again\<close>

text \<open>
  C1. For every sample rate and every list of 16-bit samples, parsing the bytes that the
  mono serialiser wrote and serialising the result again gives the same bytes; where the
  serialiser throws (a rate or a size that does not fit the 32-bit header fields) the
  composition throws the same error. For a positive rate below \<open>2 ^ 31\<close> and samples
  that fit the header, the serialiser succeeds and the parser returns the rate and the
  samples that were written. The same holds for the second cycle, starting from the
  result of parsing any byte sequence.
\<close>

theorem wav_roundtrip:
  "bind (bind (wavBytesPcm16Mono rate xs) parseWavPcm16Mono)
        (\<lambda>r. wavBytesPcm16Mono (int (sampleRate r)) (samples r)) = wavBytesPcm16Mono rate xs
   \<and> (0 < rate \<and> rate < 2147483648 \<and> 36 + 2 * int (length xs) < 4294967296 \<longrightarrow>
        (\<exists>W. wavBytesPcm16Mono rate xs = Inr W \<and>
              parseWavPcm16Mono W =
                Inr \<lparr>sampleRate = nat rate, channels = 1, bitsPerSample = 16, samples = xs\<rparr>))
   \<and> (\<forall>W0 r. parseWavPcm16Mono W0 = Inr r \<longrightarrow>
        bind (bind (wavBytesPcm16Mono (int (sampleRate r)) (samples r)) parseWavPcm16Mono)
             (\<lambda>r'. wavBytesPcm16Mono (int (sampleRate r')) (samples r'))
          = wavBytesPcm16Mono (int (sampleRate r)) (samples r))"
proof -
  have A: "bind (bind (wavBytesPcm16Mono rate xs) parseWavPcm16Mono)
        (\<lambda>r. wavBytesPcm16Mono (int (sampleRate r)) (samples r)) = wavBytesPcm16Mono rate xs"
    for rate xs
  proof (cases "wavBytesPcm16Mono rate xs")
    case (Inl e)
    then show ?thesis by (simp add: bind_def)
  next
    case (Inr W)
    have "0 \<le> rate"
      using Inr pcm16ToWavBuffer_mono_fail [of rate "concat (map writeInt16LE xs)"]
      by (auto simp: wavBytesPcm16Mono_def)
    then show ?thesis using Inr parse_wavBytes [OF Inr] by (simp add: bind_def)
  qed
  have B: "\<exists>W. wavBytesPcm16Mono rate xs = Inr W \<and>
              parseWavPcm16Mono W =
                Inr \<lparr>sampleRate = nat rate, channels = 1, bitsPerSample = 16, samples = xs\<rparr>"
    if "0 < rate \<and> rate < 2147483648 \<and> 36 + 2 * int (length xs) < 4294967296"
  proof -
    have "\<exists>W. wavBytesPcm16Mono rate xs = Inr W"
      using that wavBytes_ok [of rate xs] by simp
    then show ?thesis using parse_wavBytes by blast
  qed
  show ?thesis using A B by blast
qed

theorem wav_roundtrip_witness:
  "\<exists>W. wavBytesPcm16Mono 24000 [1, - 2, 32767, - 32768] = Inr W \<and>
        parseWavPcm16Mono W =
          Inr \<lparr>sampleRate = 24000, channels = 1, bitsPerSample = 16,
               samples = [1, - 2, 32767, - 32768]\<rparr>"
  using wav_roundtrip [of 24000 "[1, - 2, 32767, - 32768]"] by simp

section \<open>The timeline: the accumulator\<close>

lemma length_addSamples [simp]: "length (addSamples start source n acc) = length acc"
  by (induction n) (simp_all add: addSamples_def)

lemma addSamples_Suc:
  "addSamples start source (Suc n) acc =
     (let acc' = addSamples start source n acc in
      acc'[start + n := (if n < length source then acc' ! (start + n) + scast (source ! n) else 0)])"
  by (simp add: addSamples_def Let_def)

lemma nth_addSamples:
  assumes "n \<le> length source" "i < length acc"
  shows "addSamples start source n acc ! i =
           (if start \<le> i \<and> i < start + n then acc ! i + scast (source ! (i - start)) else acc ! i)"
  using assms
proof (induction n)
  case 0
  then show ?case by (auto simp add: addSamples_def)
next
  case (Suc n)
  then have IH: "addSamples start source n acc ! i =
           (if start \<le> i \<and> i < start + n then acc ! i + scast (source ! (i - start)) else acc ! i)"
    by simp
  have n: "n < length source" using Suc.prems by simp
  show ?case
  proof (cases "i = start + n")
    case True
    then show ?thesis using n Suc.prems(2) IH
      by (simp add: addSamples_Suc Let_def)
  next
    case False
    then show ?thesis using n Suc.prems(2) IH
      by (auto simp add: addSamples_Suc Let_def)
  qed
qed

lemma writableCount_le_source: "writableCount rate tot seg source \<le> length source"
  by (simp add: writableCount_def Let_def)

lemma writableCount_in_total:
  "k < writableCount rate tot seg source \<Longrightarrow> segmentStartIndex rate seg + k < tot"
  by (auto simp add: writableCount_def Let_def)

lemma length_addSegment [simp]: "length (addSegment rate tot seg source acc) = length acc"
  by (simp add: addSegment_def)

lemma nth_addSegment:
  assumes "i < length acc"
  shows "addSegment rate tot seg source acc ! i = acc ! i + contribution rate tot seg source i"
  using assms nth_addSamples [OF writableCount_le_source assms]
  by (simp add: addSegment_def contribution_def)

lemma addSegment_commute:
  "addSegment rate tot s1 src1 (addSegment rate tot s2 src2 acc) =
   addSegment rate tot s2 src2 (addSegment rate tot s1 src1 acc)"
  by (rule nth_equalityI) (simp_all add: nth_addSegment)

lemma accumulate_ok:
  assumes "\<forall>s \<in> set segs. loads fs rate s"
  shows "accumulateSegments fs rate tot segs acc =
           Inr (fold (\<lambda>s. addSegment rate tot s (sourceOf fs rate s)) segs acc)"
  using assms
  by (induction segs arbitrary: acc) (auto simp: loads_def sourceOf_def split: sum.splits)

lemma accumulate_fail:
  assumes "\<not> (\<forall>s \<in> set segs. loads fs rate s)"
  shows "\<exists>e. accumulateSegments fs rate tot segs acc = Inl e"
  using assms
  by (induction segs arbitrary: acc) (auto simp: loads_def split: sum.splits)

lemma fold_addSegment_perm:
  assumes "mset segs' = mset segs"
  shows "fold (\<lambda>s. addSegment rate tot s (sourceOf fs rate s)) segs' acc
       = fold (\<lambda>s. addSegment rate tot s (sourceOf fs rate s)) segs acc"
proof -
  have "fold (\<lambda>s. addSegment rate tot s (sourceOf fs rate s)) segs'
      = fold (\<lambda>s. addSegment rate tot s (sourceOf fs rate s)) segs"
    by (rule fold_multiset_equiv) (auto simp: fun_eq_iff addSegment_commute assms)
  then show ?thesis by simp
qed

lemma length_fold_addSegment [simp]:
  "length (fold (\<lambda>s. addSegment rate tot s (f s)) segs acc) = length acc"
  by (induction segs arbitrary: acc) simp_all

lemma nth_fold_addSegment:
  assumes "i < length acc"
  shows "fold (\<lambda>s. addSegment rate tot s (f s)) segs acc ! i
           = acc ! i + sum_list (map (\<lambda>s. contribution rate tot s (f s) i) segs)"
  using assms
  by (induction segs arbitrary: acc) (simp_all add: nth_addSegment add.assoc)

lemma sint16_bounds: "- 32768 \<le> sint v \<and> sint v \<le> 32767" for v :: int16
  using sint_ge [of v] sint_lt [of v] by simp

lemma sint_scast_16_32: "sint (scast v :: int32) = sint v" for v :: int16
  using sint16_bounds [of v]
  by (simp add: signed_scast_eq signed_take_bit_int_eq_self)

lemma clampInt16_id: "- 32768 \<le> x \<Longrightarrow> x \<le> 32767 \<Longrightarrow> clampInt16 x = x"
  by (simp add: clampInt16_def)

lemma finalSample_scast: "finalSample (scast v) = v" for v :: int16
  using sint16_bounds [of v]
  by (simp add: finalSample_def sint_scast_16_32 clampInt16_id)

lemma finalSample_0: "finalSample 0 = 0"
  by (simp add: finalSample_def clampInt16_def)

lemma sint_two_scast: "sint (scast a + scast b :: int32) = sint a + sint b" for a b :: int16
  using sint16_bounds [of a] sint16_bounds [of b]
  by (simp add: sint_word_ariths sint_scast_16_32 signed_take_bit_int_eq_self)

lemma mathRound_of_int [simp]: "mathRound (of_int n) = n"
  unfolding mathRound_def by (rule floor_unique) simp_all


lemma timelineSamples_pos: "0 < timelineSamples p"
  by (simp add: timelineSamples_def Let_def)

lemma inferredDuration_perm:
  "mset segs' = mset segs \<Longrightarrow> inferredDuration segs' = inferredDuration segs"
  by (simp add: inferredDuration_def) (metis mset_eq_setD)

lemma composeSamples_ok:
  assumes "segments p \<noteq> []" "\<forall>s \<in> set (segments p). loads fs (targetRate p) s"
  shows "composeSamples fs p =
    Inr (map finalSample (fold (\<lambda>s. addSegment (targetRate p) (timelineSamples p) s (sourceOf fs (targetRate p) s))
       (segments p) (replicate (timelineSamples p) 0)))"
  using assms by (simp add: composeSamples_def accumulate_ok bind_def)

lemma composeSamples_fail:
  assumes "\<not> (\<forall>s \<in> set (segments p). loads fs (targetRate p) s)"
  shows "\<exists>e. composeSamples fs p = Inl e"
proof -
  obtain e where "accumulateSegments fs (targetRate p) (timelineSamples p) (segments p)
                (replicate (timelineSamples p) 0) = Inl e"
    using accumulate_fail [OF assms] by blast
  then show ?thesis using assms by (auto simp add: composeSamples_def bind_def)
qed

section \<open>Which errors each function can return\<close>

lemma readUInt16LE_error: "readUInt16LE d off = Inl e \<Longrightarrow> e = RangeError"
  by (auto simp: readUInt16LE_def split: if_splits)

lemma readUInt32LE_error: "readUInt32LE d off = Inl e \<Longrightarrow> e = RangeError"
  by (auto simp: readUInt32LE_def split: if_splits)

lemma readFmt_error: "readFmt d off = Inl e \<Longrightarrow> e = RangeError"
  by (auto simp: readFmt_def bind_def split: sum.splits dest: readUInt16LE_error readUInt32LE_error)

lemma scanChunks_error: "scanChunks d off f = Inl e \<Longrightarrow> e = RangeError"
proof (induction d off f rule: scanChunks.induct)
  case (1 d offset fmt)
  from "1.prems" show ?case
    apply (subst (asm) scanChunks.simps)
    apply (auto split: if_splits sum.splits dest: readUInt32LE_error readFmt_error "1.IH")
    done
qed

lemma int16View_error: "int16View off pcm = Inl e \<Longrightarrow> e = RangeError"
  by (auto simp: int16View_def split: if_splits)

lemma downmix_error: "downmix off c pcm = Inl e \<Longrightarrow> e = RangeError"
  by (auto simp: downmix_def bind_def split: sum.splits if_splits dest: int16View_error)

lemma parse_error:
  "parseWavPcm16Mono d = Inl e \<Longrightarrow> e = InvalidContainer \<or> e = UnsupportedFormat \<or> e = RangeError"
  by (auto simp: parseWavPcm16Mono_def bind_def Let_def
      split: if_splits sum.splits option.splits prod.splits
      dest: scanChunks_error int16View_error downmix_error)

lemma resampleLinear_error: "resampleLinear xs sr tr = Inl e \<Longrightarrow> e = RangeError"
  by (auto simp: resampleLinear_def Let_def split: if_splits)

lemma segmentSource_error: "segmentSource fs rate s = Inl e \<Longrightarrow> e \<noteq> EmptyInput"
  by (auto simp: segmentSource_def readWavPcm16Mono_def bind_def
      split: sum.splits option.splits dest: parse_error resampleLinear_error)

lemma accumulateSegments_error:
  "accumulateSegments fs rate tot segs acc = Inl e \<Longrightarrow> e \<noteq> EmptyInput"
  by (induction segs arbitrary: acc) (auto split: sum.splits dest: segmentSource_error)

lemma wavBytes_error: "wavBytesPcm16Mono rate xs = Inl e \<Longrightarrow> e = RangeError"
  using pcm16ToWavBuffer_mono_fail [of rate "concat (map writeInt16LE xs)"]
        pcm16ToWavBuffer_mono [of rate "concat (map writeInt16LE xs)"]
  by (cases "0 \<le> rate \<and> rate * 2 \<le> 4294967295 \<and> 36 + int (length (concat (map writeInt16LE xs))) \<le> 4294967295")
     (auto simp: wavBytesPcm16Mono_def)


section \<open>The timeline: the output samples\<close>

lemma mathRound_numeral [simp]: "mathRound (numeral n) = numeral n"
  using mathRound_of_int [of "numeral n"] by simp

lemma mathRound_0 [simp]: "mathRound 0 = 0"
  using mathRound_of_int [of 0] by simp

lemma mathRound_1 [simp]: "mathRound 1 = 1"
  using mathRound_of_int [of 1] by simp

lemma segmentSource_parsed:
  assumes "fs (wavPath s) = Some W" "parseWavPcm16Mono W = Inr r" "int (sampleRate r) = rate"
  shows "segmentSource fs rate s = Inr (samples r)"
  using assms by (simp add: segmentSource_def readWavPcm16Mono_def bind_def resampleLinear_def)

lemma loads_iff: "loads fs rate s \<longleftrightarrow> (\<exists>src. segmentSource fs rate s = Inr src)"
  by (auto simp: loads_def split: sum.splits)

lemma sourceOf_eq: "segmentSource fs rate s = Inr src \<Longrightarrow> sourceOf fs rate s = src"
  by (simp add: sourceOf_def)

lemma nth_composeSamples:
  assumes "segments p \<noteq> []" "\<forall>s \<in> set (segments p). loads fs (targetRate p) s"
  shows "\<exists>out. composeSamples fs p = Inr out \<and> length out = timelineSamples p \<and>
           (\<forall>i < timelineSamples p. out ! i =
              finalSample (sum_list (map (\<lambda>s. contribution (targetRate p) (timelineSamples p) s
                                               (sourceOf fs (targetRate p) s) i) (segments p))))"
  unfolding composeSamples_ok [OF assms]
  by (simp add: nth_fold_addSegment)

lemma sint_word_of_int16:
  "- 32768 \<le> x \<Longrightarrow> x \<le> 32767 \<Longrightarrow> sint (word_of_int x :: int16) = x"
  by (simp add: signed_of_int signed_take_bit_int_eq_self)


subsection \<open>The example world\<close>

lemma parse_example:
  assumes "0 \<le> rate" "rate < 2147483648" "36 + 2 * int (length xs) < 4294967296"
    "n = 2 * int (length xs)"
  shows "parseWavPcm16Mono (monoHeader rate n @ concat (map writeInt16LE xs)) =
           Inr \<lparr>sampleRate = nat rate, channels = 1, bitsPerSample = 16, samples = xs\<rparr>"
  using parse_wavBytes [of rate xs] wavBytes_ok [of rate xs] assms by simp

lemma source_segmentA: "segmentSource exampleFiles 4 segmentA = Inr [100, 20000, - 7, 30000]"
proof -
  have "parseWavPcm16Mono (monoHeader 4 8 @ concat (map writeInt16LE [100, 20000, - 7, 30000]))
          = Inr \<lparr>sampleRate = nat 4, channels = 1, bitsPerSample = 16,
                 samples = [100, 20000, - 7, 30000]\<rparr>"
    by (rule parse_example) simp_all
  then show ?thesis
    using segmentSource_parsed [of exampleFiles segmentA _ _ 4]
    by (simp add: exampleFiles_def segmentA_def)
qed

lemma source_segmentB: "segmentSource exampleFiles 4 segmentB = Inr [5, 20000, 0, - 30000]"
proof -
  have "parseWavPcm16Mono (monoHeader 4 8 @ concat (map writeInt16LE [5, 20000, 0, - 30000]))
          = Inr \<lparr>sampleRate = nat 4, channels = 1, bitsPerSample = 16,
                 samples = [5, 20000, 0, - 30000]\<rparr>"
    by (rule parse_example) simp_all
  then show ?thesis
    using segmentSource_parsed [of exampleFiles segmentB _ _ 4]
    by (simp add: exampleFiles_def segmentB_def)
qed


lemma example_rate [simp]: "targetRate (exampleParams segs) = 4"
  by (simp add: targetRate_def exampleParams_def)

lemma example_segments [simp]: "segments (exampleParams segs) = segs"
  by (simp add: exampleParams_def)

lemma example_total_AB [simp]: "timelineSamples (exampleParams [segmentA, segmentB]) = 4"
  by (simp add: timelineSamples_def targetRate_def exampleParams_def inferredDuration_def
      segmentA_def segmentB_def)

lemma length_squareWave: "length squareWave = 24000"
  unfolding squareWave_def by (simp only: length_map length_upt diff_zero)

lemma parse_tone:
  "parseWavPcm16Mono (monoHeader 24000 48000 @ concat (map writeInt16LE squareWave))
     = Inr \<lparr>sampleRate = nat 24000, channels = 1, bitsPerSample = 16, samples = squareWave\<rparr>"
  by (rule parse_example) (simp_all add: length_squareWave)

section \<open>The resampler: positions and interpolated values\<close>







text \<open>
  The bound on the rounded value does not depend on the interpolated value being exact:
  any value less than one half away from a value between two integers rounds between
  them.
\<close>

lemma mathRound_bounds_perturbed:
  assumes "of_int lo \<le> x" "x \<le> of_int hi" "\<bar>e\<bar> < 1 / 2"
  shows "lo \<le> mathRound (x + e) \<and> mathRound (x + e) \<le> hi"
proof -
  have "of_int lo \<le> x + e + 1 / 2" using assms(1,3) by linarith
  then have a: "lo \<le> mathRound (x + e)" by (simp add: mathRound_def le_floor_iff)
  have "x + e + 1 / 2 < of_int (hi + 1)" using assms(2,3) by simp
  then have "mathRound (x + e) < hi + 1" unfolding mathRound_def by (simp only: floor_less_iff)
  with a show ?thesis by simp
qed

section \<open>The parser: the downmix, and concrete files\<close>

lemma length_int16Elements: "length (int16Elements pcm) = length pcm div 2"
  by (induction pcm rule: int16Elements.induct) simp_all

lemma frameSum_prefix:
  assumes "frame * c + n \<le> length source"
  shows "fold (\<lambda>channel s.
             if frame * c + channel < length source
             then map_option (\<lambda>v. v + sint (source ! (frame * c + channel))) s
             else None) [0..<n] (Some 0)
         = Some (sum_list (map (\<lambda>channel. sint (source ! (frame * c + channel))) [0..<n]))"
  using assms by (induction n) simp_all

lemma take_drop_nth:
  assumes "k + c \<le> length xs"
  shows "take c (drop k xs) = map (\<lambda>j. xs ! (k + j)) [0..<c]"
  using assms by (intro nth_equalityI) simp_all

lemma frameSum_full:
  assumes "(frame + 1) * c \<le> length source"
  shows "frameSum source c frame = Some (sum_list (map sint (take c (drop (frame * c) source))))"
proof -
  have le: "frame * c + c \<le> length source" using assms by simp
  have "map sint (take c (drop (frame * c) source))
      = map (\<lambda>channel. sint (source ! (frame * c + channel))) [0..<c]"
    by (simp add: take_drop_nth [OF le] comp_def)
  then show ?thesis
    unfolding frameSum_def using frameSum_prefix [OF le] by simp
qed

lemma frame_inside:
  assumes "frame < n div c"
  shows "(frame + 1) * c \<le> (n::nat)"
proof -
  have "(frame + 1) \<le> n div c" using assms by simp
  then have "(frame + 1) * c \<le> (n div c) * c" by (rule mult_le_mono1)
  also have "\<dots> \<le> n" by simp
  finally show ?thesis .
qed

lemma mathRound_round: "mathRound x = round x"
  by (simp add: mathRound_def round_def)

lemma monoSample_spec:
  assumes "0 < c" "frame < length source div c"
  shows "monoSample source c frame
       = word_of_int (clampInt16 (round (averageFrame (take c (drop (frame * c) source)))))"
proof -
  have le: "(frame + 1) * c \<le> length source" using assms(2) by (rule frame_inside)
  then have "frame * c + c \<le> length source" by simp
  then have len: "length (take c (drop (frame * c) source)) = c" by simp
  show ?thesis
    unfolding monoSample_def frameSum_full [OF le] averageFrame_def len
    by (simp add: mathRound_round)
qed

lemma downmix_spec:
  assumes "even off" "0 < c"
  shows "downmix off c pcm = Inr (downmixSpec c (int16Elements pcm))"
proof -
  have "map (monoSample (int16Elements pcm) c) [0..<length pcm div 2 div c]
      = downmixSpec c (int16Elements pcm)"
    unfolding downmixSpec_def framesOf_def length_int16Elements map_map
    by (rule map_cong) (simp_all add: monoSample_spec [OF assms(2)] length_int16Elements)
  then show ?thesis
    using assms by (simp add: downmix_def int16View_def bind_def)
qed

lemma scan_stereo:
  "scanChunks stereoExample 12 defaultFormat
     = Inr (\<lparr>fmtChannels = 2, fmtSampleRate = 24000, fmtBitsPerSample = 16\<rparr>, Some (44, 4))"
proof -
  let ?f = "\<lparr>fmtChannels = 2, fmtSampleRate = 24000, fmtBitsPerSample = 16\<rparr>"
  have "scanChunks stereoExample 12 defaultFormat = scanChunks stereoExample (12 + 8 + 16) ?f"
    by (rule scan_fmt)
       (simp_all add: stereoExample_def asciiSlice_def tag_fmt readUInt32LE_def readFmt_def
          readUInt16LE_def bind_def)
  then have a: "scanChunks stereoExample 12 defaultFormat = scanChunks stereoExample 36 ?f"
    by simp
  have "scanChunks stereoExample 36 ?f = Inr (?f, Some (36 + 8, 4))"
    by (rule scan_data)
       (simp_all add: stereoExample_def asciiSlice_def tag_data readUInt32LE_def)
  then show ?thesis using a by simp
qed

lemma header_stereo:
  "44 \<le> length stereoExample" "asciiSlice stereoExample 0 4 = tag ''RIFF''"
  "asciiSlice stereoExample 8 12 = tag ''WAVE''"
  by (simp_all add: stereoExample_def asciiSlice_def tag_RIFF tag_WAVE)

lemma pcm_stereo: "int16Elements (take 4 (drop 44 stereoExample)) = [100, - 100]"
  by (simp add: stereoExample_def)

lemma scan_eightBitNoData:
  "scanChunks eightBitNoDataExample 12 defaultFormat
     = Inr (\<lparr>fmtChannels = 1, fmtSampleRate = 24000, fmtBitsPerSample = 8\<rparr>, None)"
proof -
  let ?d = eightBitNoDataExample
  let ?f = "\<lparr>fmtChannels = 1, fmtSampleRate = 24000, fmtBitsPerSample = 8\<rparr>"
  have "scanChunks ?d 12 defaultFormat = scanChunks ?d (12 + 8 + 16) ?f"
    by (rule scan_fmt)
       (simp_all add: eightBitNoDataExample_def asciiSlice_def tag_fmt readUInt32LE_def
          readFmt_def readUInt16LE_def bind_def)
  then have a: "scanChunks ?d 12 defaultFormat = scanChunks ?d 36 ?f" by simp
  have "scanChunks ?d 36 ?f = scanChunks ?d (36 + 8 + 0) ?f"
    by (rule scan_other)
       (simp_all add: eightBitNoDataExample_def asciiSlice_def tag_fmt tag_data readUInt32LE_def)
  then have b: "scanChunks ?d 36 ?f = scanChunks ?d 44 ?f" by simp
  have c: "scanChunks ?d 44 ?f = Inr (?f, None)"
    by (rule scan_end) (simp add: eightBitNoDataExample_def)
  show ?thesis using a b c by simp
qed

lemma header_eightBitNoData:
  "44 \<le> length eightBitNoDataExample" "asciiSlice eightBitNoDataExample 0 4 = tag ''RIFF''"
  "asciiSlice eightBitNoDataExample 8 12 = tag ''WAVE''"
  by (simp_all add: eightBitNoDataExample_def asciiSlice_def tag_RIFF tag_WAVE)

lemma scan_eightBit:
  "scanChunks eightBitExample 12 defaultFormat
     = Inr (\<lparr>fmtChannels = 1, fmtSampleRate = 24000, fmtBitsPerSample = 8\<rparr>, Some (44, 0))"
proof -
  let ?d = eightBitExample
  let ?f = "\<lparr>fmtChannels = 1, fmtSampleRate = 24000, fmtBitsPerSample = 8\<rparr>"
  have "scanChunks ?d 12 defaultFormat = scanChunks ?d (12 + 8 + 16) ?f"
    by (rule scan_fmt)
       (simp_all add: eightBitExample_def asciiSlice_def tag_fmt readUInt32LE_def
          readFmt_def readUInt16LE_def bind_def)
  then have a: "scanChunks ?d 12 defaultFormat = scanChunks ?d 36 ?f" by simp
  have "scanChunks ?d 36 ?f = Inr (?f, Some (36 + 8, 0))"
    by (rule scan_data)
       (simp_all add: eightBitExample_def asciiSlice_def tag_data readUInt32LE_def)
  then show ?thesis using a by simp
qed

lemma header_eightBit:
  "44 \<le> length eightBitExample" "asciiSlice eightBitExample 0 4 = tag ''RIFF''"
  "asciiSlice eightBitExample 8 12 = tag ''WAVE''"
  by (simp_all add: eightBitExample_def asciiSlice_def tag_RIFF tag_WAVE)

lemma scan_fmtAtEnd: "scanChunks fmtAtEndExample 12 defaultFormat = Inl RangeError"
proof -
  let ?d = fmtAtEndExample
  have "scanChunks ?d 12 defaultFormat = scanChunks ?d (12 + 8 + 16) defaultFormat"
    by (rule scan_other)
       (simp_all add: fmtAtEndExample_def asciiSlice_def tag_fmt tag_data readUInt32LE_def)
  then have a: "scanChunks ?d 12 defaultFormat = scanChunks ?d 36 defaultFormat" by simp
  have "scanChunks ?d 36 defaultFormat = Inl RangeError"
    by (rule scan_fmt_fail)
       (simp_all add: fmtAtEndExample_def asciiSlice_def tag_fmt readFmt_def readUInt16LE_def
          bind_def)
  then show ?thesis using a by simp
qed

lemma header_fmtAtEnd:
  "44 \<le> length fmtAtEndExample" "asciiSlice fmtAtEndExample 0 4 = tag ''RIFF''"
  "asciiSlice fmtAtEndExample 8 12 = tag ''WAVE''"
  by (simp_all add: fmtAtEndExample_def asciiSlice_def tag_RIFF tag_WAVE)

lemma scan_oddData:
  "scanChunks oddDataExample 12 defaultFormat = Inr (defaultFormat, Some (29, 16))"
proof -
  let ?d = oddDataExample
  have "scanChunks ?d 12 defaultFormat = scanChunks ?d (12 + 8 + 1) defaultFormat"
    by (rule scan_other)
       (simp_all add: oddDataExample_def asciiSlice_def tag_fmt tag_data readUInt32LE_def)
  then have a: "scanChunks ?d 12 defaultFormat = scanChunks ?d 21 defaultFormat" by simp
  have "scanChunks ?d 21 defaultFormat = Inr (defaultFormat, Some (21 + 8, 16))"
    by (rule scan_data)
       (simp_all add: oddDataExample_def asciiSlice_def tag_data readUInt32LE_def)
  then show ?thesis using a by simp
qed

lemma header_oddData:
  "44 \<le> length oddDataExample" "asciiSlice oddDataExample 0 4 = tag ''RIFF''"
  "asciiSlice oddDataExample 8 12 = tag ''WAVE''"
  by (simp_all add: oddDataExample_def asciiSlice_def tag_RIFF tag_WAVE)

section \<open>C6: the order of the segments\<close>

text \<open>
  C6. Processing the segments in any other order gives the same output: when
  \<open>composeDubbedTimeline\<close> produces its samples for a list of segments, it produces the
  same samples for every permutation of the list, and the same written file; when it
  fails for the list (an unreadable segment file), it fails for every permutation.
\<close>

theorem compose_order_independent:
  assumes "mset segs' = mset (segments p)"
  shows "(\<forall>out. composeSamples fs p = Inr out \<longrightarrow> composeSamples fs (p\<lparr>segments := segs'\<rparr>) = Inr out)
       \<and> ((\<exists>e. composeSamples fs p = Inl e) \<longrightarrow> (\<exists>e. composeSamples fs (p\<lparr>segments := segs'\<rparr>) = Inl e))
       \<and> (\<forall>w w'. composeDubbedTimeline w p = (Inr (), w')
             \<longrightarrow> composeDubbedTimeline w (p\<lparr>segments := segs'\<rparr>) = (Inr (), w'))"
proof -
  let ?p' = "p\<lparr>segments := segs'\<rparr>"
  have set_eq: "set segs' = set (segments p)" using assms by (rule mset_eq_setD)
  have empty_iff: "segs' = [] \<longleftrightarrow> segments p = []"
    using assms by (metis mset_zero_iff)
  have rate: "targetRate ?p' = targetRate p" by (simp add: targetRate_def)
  have tot: "timelineSamples ?p' = timelineSamples p"
    using inferredDuration_perm [OF assms] by (simp add: timelineSamples_def targetRate_def)
  have eq: "composeSamples fs ?p' = composeSamples fs p"
    if "\<forall>s \<in> set (segments p). loads fs (targetRate p) s" for fs
  proof (cases "segments p = []")
    case True
    then show ?thesis using empty_iff by (simp add: composeSamples_def)
  next
    case False
    then have ne: "segments ?p' \<noteq> []" using empty_iff by simp
    have l': "\<forall>s \<in> set (segments ?p'). loads fs (targetRate ?p') s"
      using that set_eq rate by simp
    show ?thesis
      unfolding composeSamples_ok [OF ne l'] composeSamples_ok [OF False that] rate tot
      using fold_addSegment_perm [OF assms] by simp
  qed
  have fail: "\<exists>e. composeSamples fs ?p' = Inl e"
    if "\<not> (\<forall>s \<in> set (segments p). loads fs (targetRate p) s)" for fs
    using that set_eq rate by (intro composeSamples_fail) simp
  have A: "\<forall>out. composeSamples fs p = Inr out \<longrightarrow> composeSamples fs ?p' = Inr out" for fs
    using eq [of fs] composeSamples_fail [of p fs] by (cases "\<forall>s \<in> set (segments p). loads fs (targetRate p) s") auto
  have B: "(\<exists>e. composeSamples fs p = Inl e) \<longrightarrow> (\<exists>e. composeSamples fs ?p' = Inl e)"
    using eq [of fs] fail [of fs] by (cases "\<forall>s \<in> set (segments p). loads fs (targetRate p) s") auto
  have C: "composeDubbedTimeline w ?p' = (Inr (), w')" if h: "composeDubbedTimeline w p = (Inr (), w')" for w w'
  proof -
    from h have ne: "segments p \<noteq> []"
      by (auto simp: composeDubbedTimeline_def)
    from h ne obtain out where out: "composeSamples (files w) p = Inr out"
      by (cases "composeSamples (files w) p") (auto simp: composeDubbedTimeline_def Let_def bind_def)
    then have "composeSamples (files w) ?p' = Inr out" using A by blast
    then show ?thesis using h ne empty_iff out rate tot
      by (auto simp add: composeDubbedTimeline_def Let_def split: sum.splits)
  qed
  show ?thesis using A B C by blast
qed

theorem compose_order_independent_witness:
  "\<exists>out. composeSamples exampleFiles (exampleParams [segmentA, segmentB]) = Inr out
       \<and> composeSamples exampleFiles (exampleParams [segmentB, segmentA]) = Inr out"
proof -
  have "\<forall>s \<in> set (segments (exampleParams [segmentA, segmentB])). loads exampleFiles 4 s"
    using source_segmentA source_segmentB by (simp add: loads_iff)
  then obtain out where
    "composeSamples exampleFiles (exampleParams [segmentA, segmentB]) = Inr out"
    using composeSamples_ok [of "exampleParams [segmentA, segmentB]" exampleFiles] by simp
  moreover have "(exampleParams [segmentA, segmentB])\<lparr>segments := [segmentB, segmentA]\<rparr>
      = exampleParams [segmentB, segmentA]"
    by (simp add: exampleParams_def)
  ultimately show ?thesis
    using compose_order_independent
      [of "[segmentB, segmentA]" "exampleParams [segmentA, segmentB]" exampleFiles]
    by simp
qed

section \<open>C8: no segments\<close>

text \<open>
  C8. \<open>composeDubbedTimeline\<close> fails with \<open>EmptyInput\<close> exactly when the list of segments
  is empty. For the empty list it returns the world as it found it: no directory made,
  no accumulator allocated, no file written.
\<close>

theorem empty_input:
  "(fst (composeDubbedTimeline w p) = Inl EmptyInput \<longleftrightarrow> segments p = [])
   \<and> (segments p = [] \<longrightarrow> composeDubbedTimeline w p = (Inl EmptyInput, w))"
proof -
  have "fst (composeDubbedTimeline w p) \<noteq> Inl EmptyInput" if ne: "segments p \<noteq> []"
  proof
    assume h: "fst (composeDubbedTimeline w p) = Inl EmptyInput"
    then have "bind (composeSamples (files w) p) (wavBytesPcm16Mono (targetRate p)) = Inl EmptyInput"
      using ne by (auto simp: composeDubbedTimeline_def Let_def split: sum.splits)
    then show False
      using ne
      by (auto simp: composeSamples_def bind_def split: sum.splits
          dest: accumulateSegments_error wavBytes_error)
  qed
  then show ?thesis by (auto simp: composeDubbedTimeline_def)
qed

theorem empty_input_witness:
  "composeDubbedTimeline \<lparr>files = exampleFiles, trace = []\<rparr> (exampleParams [])
     = (Inl EmptyInput, \<lparr>files = exampleFiles, trace = []\<rparr>)
   \<and> fst (composeDubbedTimeline \<lparr>files = exampleFiles, trace = []\<rparr> (exampleParams [segmentA]))
       \<noteq> Inl EmptyInput"
  using empty_input [of "\<lparr>files = exampleFiles, trace = []\<rparr>" "exampleParams []"]
        empty_input [of "\<lparr>files = exampleFiles, trace = []\<rparr>" "exampleParams [segmentA]"]
  by simp

section \<open>C5: overlapping segments add\<close>

text \<open>
  C5. Two segments that start at the same output index and both hold the sample value
  \<open>V\<close> at the same offset inside their writable part give the output value
  \<open>clamp (2 * V)\<close> at that index: the second segment is added to the first, not
  written over it, and the sum is clamped once at the end.
\<close>

theorem overlap_adds:
  assumes segs: "segments p = [s1, s2]"
    and src1: "segmentSource fs (targetRate p) s1 = Inr src1"
    and src2: "segmentSource fs (targetRate p) s2 = Inr src2"
    and same: "segmentStartIndex (targetRate p) s1 = segmentStartIndex (targetRate p) s2"
    and k1: "k < writableCount (targetRate p) (timelineSamples p) s1 src1"
    and k2: "k < writableCount (targetRate p) (timelineSamples p) s2 src2"
    and v1: "src1 ! k = V" and v2: "src2 ! k = V"
  shows "\<exists>out. composeSamples fs p = Inr out
           \<and> segmentStartIndex (targetRate p) s1 + k < length out
           \<and> sint (out ! (segmentStartIndex (targetRate p) s1 + k)) = clampInt16 (2 * sint V)"
proof -
  let ?rate = "targetRate p" and ?tot = "timelineSamples p"
  let ?i = "segmentStartIndex ?rate s1 + k"
  have ne: "segments p \<noteq> []" using segs by simp
  have l: "\<forall>s \<in> set (segments p). loads fs ?rate s"
    using segs src1 src2 by (auto simp: loads_iff)
  obtain out where out: "composeSamples fs p = Inr out" "length out = ?tot"
    and nth: "\<forall>i < ?tot. out ! i =
              finalSample (sum_list (map (\<lambda>s. contribution ?rate ?tot s (sourceOf fs ?rate s) i) (segments p)))"
    using nth_composeSamples [OF ne l] by blast
  have i: "?i < ?tot" using k1 by (rule writableCount_in_total)
  have c1: "contribution ?rate ?tot s1 src1 ?i = scast V"
    using k1 v1 by (simp add: contribution_def)
  have c2: "contribution ?rate ?tot s2 src2 ?i = scast V"
    using k2 v2 same by (simp add: contribution_def)
  have "out ! ?i = finalSample (scast V + scast V)"
    using nth i segs c1 c2 sourceOf_eq [OF src1] sourceOf_eq [OF src2] by simp
  moreover have "sint (finalSample (scast V + scast V)) = clampInt16 (2 * sint V)"
  proof -
    have "- 32768 \<le> clampInt16 (2 * sint V) \<and> clampInt16 (2 * sint V) \<le> 32767"
      by (simp add: clampInt16_def)
    moreover have "sint (finalSample (scast V + scast V))
        = sint (word_of_int (clampInt16 (2 * sint V)) :: int16)"
      by (simp only: finalSample_def sint_two_scast mult_2)
    ultimately show ?thesis
      by (simp add: sint_word_of_int16)
  qed
  ultimately show ?thesis using out i by auto
qed


theorem overlap_adds_witness:
  "\<exists>out. composeSamples exampleFiles (exampleParams [segmentA, segmentB]) = Inr out
       \<and> 1 < length out \<and> sint (out ! 1) = 32767"
proof -
  have st: "segmentStartIndex 4 segmentA = 0" "segmentStartIndex 4 segmentB = 0"
    by (simp_all add: segmentStartIndex_def segmentA_def segmentB_def)
  have k1: "1 < writableCount 4 4 segmentA [100, 20000, - 7, 30000]"
    by (simp add: writableCount_def targetWindowSamples_def segmentStartIndex_def segmentA_def)
  have k2: "1 < writableCount 4 4 segmentB [5, 20000, 0, - 30000]"
    by (simp add: writableCount_def targetWindowSamples_def segmentStartIndex_def segmentB_def)
  have "\<exists>out. composeSamples exampleFiles (exampleParams [segmentA, segmentB]) = Inr out
           \<and> segmentStartIndex (targetRate (exampleParams [segmentA, segmentB])) segmentA + 1 < length out
           \<and> sint (out ! (segmentStartIndex (targetRate (exampleParams [segmentA, segmentB])) segmentA + 1)) = clampInt16 (2 * sint (20000 :: int16))"
    by (rule overlap_adds [where ?s2.0 = segmentB and ?src1.0 = "[100, 20000, - 7, 30000]"
          and ?src2.0 = "[5, 20000, 0, - 30000]"])
       (simp_all add: source_segmentA source_segmentB st k1 [unfolded One_nat_def] k2 [unfolded One_nat_def])
  then show ?thesis
    by (simp add: st clampInt16_def)
qed

section \<open>C10: a segment that starts before 0\<close>



section \<open>C2: one segment between two silences\<close>

text \<open>
  C2. One segment from 1 s to 2 s whose file holds 24000 samples at 24000 Hz, composed
  at 24000 Hz with a media duration of 3 s: resampling is the identity, the output has
  exactly 72000 samples, the first 24000 are 0, the next 24000 are the samples of the
  file, the last 24000 are 0, and the file written is the serialisation of these
  samples.
\<close>

theorem single_tone:
  assumes len: "length tone = 24000"
    and fl: "files w path = Some W"
    and parse: "parseWavPcm16Mono W = Inr r" "sampleRate r = 24000" "samples r = tone"
    and p: "p = \<lparr>segments = [\<lparr>startSec = 1, endSec = 2, wavPath = path, durationSec = 1\<rparr>],
            outputWavPath = outPath, targetSampleRate = Some 24000, mediaDurationSec = Some 3\<rparr>"
  shows "resampleLinear tone 24000 24000 = Inr tone
       \<and> composeSamples (files w) p = Inr (replicate 24000 0 @ tone @ replicate 24000 0)
       \<and> length (replicate 24000 (0 :: int16) @ tone @ replicate 24000 0) = 72000
       \<and> fst (composeDubbedTimeline w p) = Inr ()
       \<and> files (snd (composeDubbedTimeline w p)) outPath
           = Some (monoHeader 24000 144000
                   @ concat (map writeInt16LE (replicate 24000 0 @ tone @ replicate 24000 0)))"
proof -
  let ?s = "\<lparr>startSec = 1, endSec = 2, wavPath = path, durationSec = 1\<rparr>"
  let ?fs = "files w"
  have rate: "targetRate p = 24000" by (simp add: targetRate_def p)
  have tot: "timelineSamples p = 72000"
    by (simp add: timelineSamples_def targetRate_def inferredDuration_def p)
  have src: "segmentSource ?fs 24000 ?s = Inr tone"
    using segmentSource_parsed [of ?fs ?s W r 24000] fl parse by simp
  have st: "segmentStartIndex 24000 ?s = 24000"
    by (simp add: segmentStartIndex_def)
  have wr: "writableCount 24000 72000 ?s tone = 24000"
    by (simp add: writableCount_def st targetWindowSamples_def len)
  have ne: "segments p \<noteq> []" by (simp add: p)
  have l: "\<forall>s \<in> set (segments p). loads ?fs (targetRate p) s"
    unfolding rate using src by (simp add: loads_iff p)
  have segs: "segments p = [?s]" by (simp add: p)
  have "\<exists>out. composeSamples ?fs p = Inr out \<and> length out = 72000 \<and>
           (\<forall>i < 72000. out ! i =
              finalSample (sum_list (map (\<lambda>s. contribution 24000 72000 s (sourceOf ?fs 24000 s) i)
                                         (segments p))))"
    using nth_composeSamples [OF ne l] unfolding rate tot .
  then obtain out where out: "composeSamples ?fs p = Inr out" "length out = 72000"
    and nth: "\<forall>i < 72000. out ! i = finalSample (contribution 24000 72000 ?s tone i)"
    unfolding segs by (auto simp: sourceOf_eq [OF src])
  have eq: "out = replicate 24000 0 @ tone @ replicate 24000 0"
  proof (rule nth_equalityI)
    show "length out = length (replicate 24000 0 @ tone @ replicate 24000 0)"
      using out len by simp
  next
    fix i assume "i < length out"
    then have i: "i < 72000" using out by simp
    then have o: "out ! i = finalSample (contribution 24000 72000 ?s tone i)"
      using nth by blast
    consider "i < 24000" | "24000 \<le> i" "i < 48000" | "48000 \<le> i" by linarith
    then show "out ! i = (replicate 24000 0 @ tone @ replicate 24000 0) ! i"
    proof cases
      case 1
      then show ?thesis unfolding o contribution_def st wr
        by (simp add: finalSample_0 nth_append)
    next
      case 2
      then have "i - 24000 < 24000" by simp
      with 2 show ?thesis unfolding o contribution_def st wr using len
        by (simp add: finalSample_scast nth_append)
    next
      case 3
      then have "\<not> i - 24000 < 24000" by simp
      with 3 show ?thesis unfolding o contribution_def st wr using len i
        by (simp add: finalSample_0 nth_append)
    qed
  qed
  have bytes: "wavBytesPcm16Mono 24000 out
      = Inr (monoHeader 24000 144000 @ concat (map writeInt16LE out))"
    using wavBytes_ok [of 24000 out] out(2) by simp
  have whole: "composeDubbedTimeline w p =
      (Inr (), w\<lparr>trace := trace w @ [MkdirParent outPath, AllocAccumulator 72000],
                 files := (files w)(outPath \<mapsto> monoHeader 24000 144000 @ concat (map writeInt16LE out)),
                 trace := trace w @ [MkdirParent outPath, AllocAccumulator 72000] @ [WriteFile outPath]\<rparr>)"
    unfolding composeDubbedTimeline_def Let_def rate tot out(1) bind_def
    using ne bytes by (simp add: p)
  have id: "resampleLinear tone 24000 24000 = Inr tone"
    by (simp add: resampleLinear_def)
  show ?thesis
    using id out(1) out(2) whole unfolding eq by simp
qed

theorem single_tone_witness:
  "composeSamples toneFiles
     \<lparr>segments = [\<lparr>startSec = 1, endSec = 2, wavPath = ''tone.wav'', durationSec = 1\<rparr>],
      outputWavPath = ''out.wav'', targetSampleRate = Some 24000, mediaDurationSec = Some 3\<rparr>
   = Inr (replicate 24000 0 @ squareWave @ replicate 24000 0)"
proof -
  have fl: "files \<lparr>files = toneFiles, trace = []\<rparr> ''tone.wav''
      = Some (monoHeader 24000 48000 @ concat (map writeInt16LE squareWave))"
    by (simp add: toneFiles_def)
  have sr: "sampleRate \<lparr>sampleRate = nat 24000, channels = 1, bitsPerSample = 16,
      samples = squareWave\<rparr> = 24000"
    by simp
  have sm: "samples \<lparr>sampleRate = nat 24000, channels = 1, bitsPerSample = 16,
      samples = squareWave\<rparr> = squareWave"
    by simp
  have "composeSamples (files \<lparr>files = toneFiles, trace = []\<rparr>)
     \<lparr>segments = [\<lparr>startSec = 1, endSec = 2, wavPath = ''tone.wav'', durationSec = 1\<rparr>],
      outputWavPath = ''out.wav'', targetSampleRate = Some 24000, mediaDurationSec = Some 3\<rparr>
   = Inr (replicate 24000 0 @ squareWave @ replicate 24000 0)"
    using single_tone [OF length_squareWave fl parse_tone sr sm refl] by blast
  then show ?thesis by simp
qed

section \<open>C3: resampled values stay in the 16-bit range\<close>



section \<open>C7: the downmix to mono\<close>

text \<open>
  C7. For an input whose chunk loop ends at a \<open>"data"\<close> chunk with 16 bits per sample
  and more than one channel in force (the data starting at an even offset), the parser
  returns one channel whose samples are the downmix in the words of the specification:
  per frame the average of the channel values, rounded to the nearest integer and
  clamped. The two-channel frame (100, -100) gives the mono value 0.
\<close>

theorem downmix_average:
  "(44 \<le> length d \<and> asciiSlice d 0 4 = tag ''RIFF'' \<and> asciiSlice d 8 12 = tag ''WAVE''
     \<and> scanChunks d 12 defaultFormat = Inr (fmt, Some (off, sz))
     \<and> fmtBitsPerSample fmt = 16 \<and> 1 < fmtChannels fmt \<and> even off
    \<longrightarrow> parseWavPcm16Mono d =
          Inr \<lparr>sampleRate = fmtSampleRate fmt, channels = 1, bitsPerSample = 16,
               samples = downmixSpec (fmtChannels fmt) (int16Elements (take sz (drop off d)))\<rparr>)
   \<and> parseWavPcm16Mono stereoExample =
       Inr \<lparr>sampleRate = 24000, channels = 1, bitsPerSample = 16, samples = [0]\<rparr>
   \<and> int16Elements (take 4 (drop 44 stereoExample)) = [100, - 100]"
proof -
  have gen: "parseWavPcm16Mono d =
          Inr \<lparr>sampleRate = fmtSampleRate fmt, channels = 1, bitsPerSample = 16,
               samples = downmixSpec (fmtChannels fmt) (int16Elements (take sz (drop off d)))\<rparr>"
    if "44 \<le> length d" "asciiSlice d 0 4 = tag ''RIFF''" "asciiSlice d 8 12 = tag ''WAVE''"
      "scanChunks d 12 defaultFormat = Inr (fmt, Some (off, sz))"
      "fmtBitsPerSample fmt = 16" "1 < fmtChannels fmt" "even off"
    for d fmt off sz
  proof -
    have "fmtChannels fmt \<noteq> 1" "0 < fmtChannels fmt" using that(6) by simp_all
    then show ?thesis
      using parse_multi [OF that(1-5)] downmix_spec [OF that(7), of "fmtChannels fmt"]
      by (simp add: bind_def)
  qed
  have u: "[0..<Suc 0] = [0]" by simp
  have "downmixSpec 2 [100, - 100] = [0]"
    by (simp add: downmixSpec_def framesOf_def averageFrame_def clampInt16_def)
  then have "parseWavPcm16Mono stereoExample =
       Inr \<lparr>sampleRate = 24000, channels = 1, bitsPerSample = 16, samples = [0]\<rparr>"
    using gen [OF header_stereo scan_stereo] by (simp add: pcm_stereo)
  then show ?thesis using gen pcm_stereo by blast
qed

theorem downmix_average_witness:
  "parseWavPcm16Mono stereoExample =
     Inr \<lparr>sampleRate = 24000, channels = 1, bitsPerSample = 16,
          samples = downmixSpec 2 [100, - 100]\<rparr>"
  using downmix_average [of stereoExample
      "\<lparr>fmtChannels = 2, fmtSampleRate = 24000, fmtBitsPerSample = 16\<rparr>" 44 4]
    header_stereo scan_stereo
  by (simp add: pcm_stereo)

section \<open>C4: the failures of the parser\<close>

text \<open>
  The \<open>RangeError\<close> of the runtime is a third kind of failure: here a \<open>"fmt "\<close> chunk
  header in the last 8 bytes of a 44-byte file, whose fields are read beyond the end.
\<close>

lemma parse_fmt_at_end_throws:
  "length fmtAtEndExample = 44 \<and> parseWavPcm16Mono fmtAtEndExample = Inl RangeError"
  using parse_scan_error [OF header_fmtAtEnd scan_fmtAtEnd]
  by (simp add: fmtAtEndExample_def)

text \<open>
  C4, as amended. The parser fails with \<open>InvalidContainer\<close> exactly when the input is
  shorter than 44 bytes, or one of the two markers mismatches (compared with the highest
  bit of each byte cleared), or the chunk loop runs off the end of the input without
  meeting a \<open>"data"\<close> chunk. It fails with \<open>UnsupportedFormat\<close> exactly when the input
  has at least 44 bytes and both markers, the loop ends at a \<open>"data"\<close> chunk, and the
  bits per sample in force there (those of the last \<open>"fmt "\<close> chunk before it, 16 when
  there is none) are not 16.
\<close>

theorem parse_failures:
  "(parseWavPcm16Mono d = Inl InvalidContainer \<longleftrightarrow>
      length d < 44 \<or> asciiSlice d 0 4 \<noteq> tag ''RIFF'' \<or> asciiSlice d 8 12 \<noteq> tag ''WAVE''
      \<or> (\<exists>fmt. scanChunks d 12 defaultFormat = Inr (fmt, None)))
   \<and> (parseWavPcm16Mono d = Inl UnsupportedFormat \<longleftrightarrow>
      44 \<le> length d \<and> asciiSlice d 0 4 = tag ''RIFF'' \<and> asciiSlice d 8 12 = tag ''WAVE''
      \<and> (\<exists>fmt off sz. scanChunks d 12 defaultFormat = Inr (fmt, Some (off, sz))
                       \<and> fmtBitsPerSample fmt \<noteq> 16))"
proof (cases "44 \<le> length d \<and> asciiSlice d 0 4 = tag ''RIFF'' \<and> asciiSlice d 8 12 = tag ''WAVE''")
  case False
  then have "parseWavPcm16Mono d = Inl InvalidContainer"
    by (auto simp: parseWavPcm16Mono_def)
  then show ?thesis using False by auto
next
  case True
  then have h: "44 \<le> length d" "asciiSlice d 0 4 = tag ''RIFF''" "asciiSlice d 8 12 = tag ''WAVE''"
    by simp_all
  show ?thesis
  proof (cases "scanChunks d 12 defaultFormat")
    case (Inl e)
    then have "e = RangeError" by (rule scanChunks_error)
    then have "parseWavPcm16Mono d = Inl RangeError"
      using parse_scan_error [OF h Inl] by simp
    then show ?thesis using h Inl by simp
  next
    case (Inr res)
    obtain fmt found where res: "res = (fmt, found)" by (cases res)
    show ?thesis
    proof (cases found)
      case None
      then show ?thesis using parse_no_data [OF h] Inr res h by simp
    next
      case (Some place)
      obtain off sz where place: "place = (off, sz)" by (cases place)
      have scan: "scanChunks d 12 defaultFormat = Inr (fmt, Some (off, sz))"
        using Inr res Some place by simp
      show ?thesis
      proof (cases "fmtBitsPerSample fmt = 16")
        case False
        then show ?thesis using parse_bits [OF h scan] h scan by simp
      next
        case bits: True
        have "parseWavPcm16Mono d \<noteq> Inl InvalidContainer
            \<and> parseWavPcm16Mono d \<noteq> Inl UnsupportedFormat"
        proof (cases "fmtChannels fmt = 1")
          case True
          show ?thesis
            unfolding parse_mono [OF h scan bits True]
            by (auto simp: bind_def split: sum.splits dest: int16View_error)
        next
          case False
          show ?thesis
            unfolding parse_multi [OF h scan bits False]
            by (auto simp: bind_def split: sum.splits dest: downmix_error)
        qed
        then show ?thesis using h scan bits by simp
      qed
    qed
  qed
qed

theorem parse_failures_witness:
  "parseWavPcm16Mono [] = Inl InvalidContainer
   \<and> parseWavPcm16Mono eightBitNoDataExample = Inl InvalidContainer
   \<and> parseWavPcm16Mono eightBitExample = Inl UnsupportedFormat"
  using parse_failures [of "[]"] parse_failures [of eightBitNoDataExample]
    parse_failures [of eightBitExample]
    header_eightBitNoData scan_eightBitNoData header_eightBit scan_eightBit
  by simp

text \<open>
  C4 as stated fails: the first chunk of this file is a \<open>"fmt "\<close> chunk that declares
  8 bits per sample, and the failure is \<open>InvalidContainer\<close> (no \<open>"data"\<close> chunk), not
  \<open>UnsupportedFormat\<close>.
\<close>

theorem parse_failures_counterexample:
  "asciiSlice eightBitNoDataExample 12 16 = tag ''fmt ''
   \<and> readUInt16LE eightBitNoDataExample (12 + 8 + 14) = Inr 8
   \<and> parseWavPcm16Mono eightBitNoDataExample = Inl InvalidContainer
   \<and> parseWavPcm16Mono eightBitNoDataExample \<noteq> Inl UnsupportedFormat"
proof -
  have "asciiSlice eightBitNoDataExample 12 16 = tag ''fmt ''"
    by (simp add: eightBitNoDataExample_def asciiSlice_def tag_fmt)
  moreover have "readUInt16LE eightBitNoDataExample (12 + 8 + 14) = Inr 8"
    by (simp add: eightBitNoDataExample_def readUInt16LE_def)
  moreover have "parseWavPcm16Mono eightBitNoDataExample = Inl InvalidContainer"
    by (rule parse_no_data [OF header_eightBitNoData scan_eightBitNoData])
  ultimately show ?thesis by simp
qed

section \<open>C9: a file without a format chunk\<close>

text \<open>
  Where no four bytes of the input decode to \<open>"fmt "\<close>, the loop keeps the initial
  format; when it then ends at a \<open>"data"\<close> chunk whose data start at an even offset, the
  parser returns the data as mono 16-bit samples at 24000 Hz.
\<close>

lemma scan_without_fmt:
  "(\<forall>k. asciiSlice d k (k + 4) \<noteq> tag ''fmt '') \<Longrightarrow>
   scanChunks d offset fmt = Inr (fmt', found) \<Longrightarrow> fmt' = fmt"
proof (induction d offset fmt rule: scanChunks.induct)
  case (1 d offset fmt)
  have nf: "asciiSlice d offset (offset + 4) \<noteq> tag ''fmt ''" using "1.prems"(1) by blast
  have IH: "fmt' = fmt"
    if "offset + 8 \<le> length d" "readUInt32LE d (offset + 4) = Inr sz"
      "asciiSlice d offset (offset + 4) \<noteq> tag ''data''"
      "scanChunks d (offset + 8 + sz) fmt = Inr (fmt', found)" for sz
    using "1.IH" [of sz fmt] "1.prems"(1) nf that by simp
  from "1.prems"(2) show ?case
    by (subst (asm) scanChunks.simps) (auto simp add: nf split: if_splits sum.splits dest: IH)
qed

lemma parse_without_fmt:
  assumes "44 \<le> length d" "asciiSlice d 0 4 = tag ''RIFF''" "asciiSlice d 8 12 = tag ''WAVE''"
    and "\<forall>k. asciiSlice d k (k + 4) \<noteq> tag ''fmt ''"
    and "scanChunks d 12 defaultFormat = Inr (fmt, Some (off, sz))"
    and "even off"
  shows "parseWavPcm16Mono d =
           Inr \<lparr>sampleRate = 24000, channels = 1, bitsPerSample = 16,
                samples = int16Elements (take sz (drop off d))\<rparr>"
proof -
  have fmt: "fmt = defaultFormat" using scan_without_fmt [OF assms(4,5)] .
  have "fmtBitsPerSample fmt = 16" "fmtChannels fmt = 1" "fmtSampleRate fmt = 24000"
    by (simp_all add: fmt defaultFormat_def)
  then show ?thesis
    using parse_mono [OF assms(1,2,3,5)] assms(6) by (simp add: int16View_def bind_def)
qed

text \<open>
  C9. The same does not hold for every file without \<open>"fmt "\<close> chunk. This file has 45
  bytes, both markers, a \<open>"JUNK"\<close> chunk of 1 byte and a \<open>"data"\<close> chunk of 16 bytes
  that the loop finds at offset 21; its data start at the odd offset 29, the
  \<open>Int16Array\<close> view on them cannot be made, and the parser fails with \<open>RangeError\<close>.
\<close>

theorem parse_odd_data_offset_throws:
  "44 \<le> length oddDataExample
   \<and> asciiSlice oddDataExample 0 4 = tag ''RIFF'' \<and> asciiSlice oddDataExample 8 12 = tag ''WAVE''
   \<and> asciiSlice oddDataExample 12 16 \<noteq> tag ''fmt ''
   \<and> scanChunks oddDataExample 12 defaultFormat = Inr (defaultFormat, Some (29, 16))
   \<and> parseWavPcm16Mono oddDataExample = Inl RangeError"
proof -
  have "parseWavPcm16Mono oddDataExample = Inl RangeError"
    unfolding parse_mono [OF header_oddData scan_oddData, unfolded defaultFormat_def, simplified]
    by (simp add: int16View_def bind_def)
  moreover have "asciiSlice oddDataExample 12 16 \<noteq> tag ''fmt ''"
    by (simp add: oddDataExample_def asciiSlice_def tag_fmt)
  ultimately show ?thesis using header_oddData scan_oddData by simp
qed

theorem parse_odd_data_offset_throws_witness:
  "\<not> (\<exists>r. parseWavPcm16Mono oddDataExample = Inr r)"
  using parse_odd_data_offset_throws by simp

end
